theory Spec2Isabelle
  imports Complex_Main "HOL-Library.AList"
begin

section \<open>Python strings and numbers\<close>

text \<open>
  A Python \<open>str\<close> is modelled as a \<open>string\<close> whose characters are the code points
  0 to 255; text with code points above 255 is outside the model.
\<close>

subsection \<open>\<open>str.lower\<close>\<close>

definition lower_char :: "char \<Rightarrow> char" where
  "lower_char ch =
     (let n = (of_char ch :: nat)
      in if (65 \<le> n \<and> n \<le> 90) \<or> (192 \<le> n \<and> n \<le> 222 \<and> n \<noteq> 215)
         then char_of (n + 32) else ch)"

definition lower :: "string \<Rightarrow> string" where
  "lower s = map lower_char s"

subsection \<open>Exceptions\<close>

text \<open>The exception classes that the signal processor can meet.\<close>

datatype py_error =
    KeyError string | ValueError | TypeError | AttributeError | OverflowError
  | InvalidOperation | DivisionByZero | DecimalOverflow | JSONDecodeError | OSError

subsection \<open>\<open>str.split\<close> with a separator\<close>

fun strip_prefix :: "string \<Rightarrow> string \<Rightarrow> string option" where
  "strip_prefix [] s = Some s"
| "strip_prefix (p # ps) [] = None"
| "strip_prefix (p # ps) (ch # cs) = (if p = ch then strip_prefix ps cs else None)"

lemma strip_prefix_Some: "strip_prefix p s = Some r \<Longrightarrow> s = p @ r"
  by (induction p s rule: strip_prefix.induct) (auto split: if_splits)

text \<open>
  The pieces of \<open>s\<close> between the occurrences of \<open>sep\<close>, found from the left;
  \<open>acc\<close> holds the piece being read, reversed. The separator is not empty (Python
  raises on an empty one; the source splits on \<open>'_w'\<close> and \<open>'%'\<close>).
\<close>

function split_from :: "string \<Rightarrow> string \<Rightarrow> string \<Rightarrow> string list" where
  "split_from sep acc [] = [rev acc]"
| "split_from sep acc (ch # cs) =
     (case (if sep = [] then None else strip_prefix sep (ch # cs)) of
        Some rest \<Rightarrow> rev acc # split_from sep [] rest
      | None \<Rightarrow> split_from sep (ch # acc) cs)"
  by pat_completeness auto
termination
proof (relation "measure (\<lambda>(sep, acc, s). length s)")
  fix sep acc :: string and ch :: char and cs x2 :: string
  assume "(if sep = [] then None else strip_prefix sep (ch # cs)) = Some x2"
  then have "sep \<noteq> []" and "ch # cs = sep @ x2"
    by (auto split: if_splits dest: strip_prefix_Some)
  then have "length x2 < length (ch # cs)"
    by (metis add_diff_cancel_right' diff_less length_append length_greater_0_conv
        less_add_same_cancel2 zero_less_Suc)
  then show "((sep, [], x2), (sep, acc, ch # cs)) \<in> measure (\<lambda>(sep, acc, s). length s)"
    by simp
qed auto

definition str_split :: "string \<Rightarrow> string \<Rightarrow> string list" where
  "str_split sep s = split_from sep [] s"

text \<open>Whether \<open>sep\<close> occurs in \<open>s\<close>.\<close>

fun occurs :: "string \<Rightarrow> string \<Rightarrow> bool" where
  "occurs sep [] = (sep = [])"
| "occurs sep (ch # cs) = (strip_prefix sep (ch # cs) \<noteq> None \<or> occurs sep cs)"

subsection \<open>\<open>int\<close> of a string\<close>

text \<open>The characters that \<open>int\<close> strips from both ends.\<close>

definition is_space :: "char \<Rightarrow> bool" where
  "is_space ch = ((of_char ch :: nat) \<in> set [9, 10, 11, 12, 13, 32, 133, 160])"

definition is_digit :: "char \<Rightarrow> bool" where
  "is_digit ch = (48 \<le> (of_char ch :: nat) \<and> (of_char ch :: nat) \<le> 57)"

definition digit_val :: "char \<Rightarrow> nat" where
  "digit_val ch = of_char ch - 48"

definition strip :: "string \<Rightarrow> string" where
  "strip s = rev (dropWhile is_space (rev (dropWhile is_space s)))"

text \<open>Digits, with single underscores allowed between two digits.\<close>

fun int_body :: "string \<Rightarrow> bool" where
  "int_body [] = False"
| "int_body [ch] = is_digit ch"
| "int_body (ch # d # cs) =
     (is_digit ch \<and> (if d = CHR ''_'' then int_body cs else int_body (d # cs)))"

definition digits_value :: "string \<Rightarrow> nat" where
  "digits_value ds = foldl (\<lambda>a ch. 10 * a + digit_val ch) 0 ds"

text \<open>
  \<open>int(s)\<close> in base ten. A string with more than 4300 digits is refused (the
  interpreter's default limit on the conversion).
\<close>

definition py_int :: "string \<Rightarrow> py_error + int" where
  "py_int s =
     (let t = strip s;
          neg = (t \<noteq> [] \<and> hd t = CHR ''-'');
          body = (if t \<noteq> [] \<and> (hd t = CHR ''-'' \<or> hd t = CHR ''+'') then tl t else t);
          ds = filter is_digit body
      in if int_body body \<and> length ds \<le> 4300
         then Inr (if neg then - int (digits_value ds) else int (digits_value ds))
         else Inl ValueError)"

subsection \<open>\<open>Decimal\<close> arithmetic\<close>

text \<open>Rounding to the nearest integer, ties to even.\<close>

definition round_half_even :: "rat \<Rightarrow> int" where
  "round_half_even x =
     (let f = \<lfloor>x\<rfloor>; r = x - of_int f
      in if r < 1 / 2 then f else if 1 / 2 < r then f + 1 else if even f then f else f + 1)"

text \<open>
  A finite \<open>Decimal\<close> is modelled by the rational number it denotes. Construction
  from a string is exact. An arithmetic operation computes the exact result and then
  fits it to the default context: 28 significant digits, rounding half to even,
  exponents between \<open>Emin = -999999\<close> and \<open>Emax = 999999\<close>, with the traps for
  \<open>Overflow\<close>, \<open>DivisionByZero\<close> and \<open>InvalidOperation\<close> enabled. The signal
  processor is modelled on finite decimals only; the special values that a venue
  field may hold are added below for the monitor.
\<close>

definition emax :: int where
  "emax = 999999"

definition emin :: int where
  "emin = - 999999"

text \<open>\<open>Etiny = Emin - (prec - 1)\<close>, the least exponent of a result.\<close>

definition etiny :: int where
  "etiny = emin - 27"

text \<open>The number of decimal digits of a non-negative integer (one for zero).\<close>

function ndigits :: "int \<Rightarrow> int" where
  "ndigits n = (if n < 10 then 1 else 1 + ndigits (n div 10))"
  by pat_completeness auto
termination
  by (relation "measure nat") auto

declare ndigits.simps [simp del]

text \<open>
  The adjusted exponent of a non-zero number: the \<open>k\<close> with
  \<open>10 ^ k \<le> \<bar>x\<bar> < 10 ^ (k + 1)\<close>. For the fraction \<open>n / d\<close> it is the difference
  of the digit counts or one less.
\<close>

definition dec_adjusted :: "rat \<Rightarrow> int" where
  "dec_adjusted x =
     (let (n, d) = quotient_of \<bar>x\<bar>;
          k = ndigits n - ndigits d
      in if 10 powi k \<le> \<bar>x\<bar> then k else k - 1)"

text \<open>
  Fitting an exact result to the context. The result is rounded to a multiple of
  \<open>10 ^ q\<close>, where \<open>q\<close> leaves 28 digits and is not below \<open>Etiny\<close>; a result
  whose adjusted exponent exceeds \<open>Emax\<close> raises \<open>Overflow\<close>.
\<close>

definition dec_fix :: "rat \<Rightarrow> py_error + rat" where
  "dec_fix x =
     (if x = 0 then Inr 0
      else
        (let q = max (dec_adjusted x - 27) etiny;
             y = sgn x * of_int (round_half_even (\<bar>x\<bar> / 10 powi q)) * 10 powi q
         in if y \<noteq> 0 \<and> emax < dec_adjusted y then Inl DecimalOverflow else Inr y))"

definition dec_mul :: "rat \<Rightarrow> rat \<Rightarrow> py_error + rat" where
  "dec_mul x y = dec_fix (x * y)"

definition dec_div :: "rat \<Rightarrow> rat \<Rightarrow> py_error + rat" where
  "dec_div x y =
     (if y = 0 then (if x = 0 then Inl InvalidOperation else Inl DivisionByZero)
      else dec_fix (x / y))"

text \<open>
  A \<open>Decimal\<close> that may be special: a finite number, an infinity, a quiet NaN or a
  signalling NaN. The sign of an infinity or NaN is not kept.
\<close>

datatype pydec = DFin rat | DInf | DNaN | DSNaN

text \<open>
  The product \<open>x * y\<close> of two such values: a signalling NaN raises
  \<open>InvalidOperation\<close>, a quiet NaN gives NaN, an infinity times zero raises
  \<open>InvalidOperation\<close>, and two finite numbers are multiplied in the context.
\<close>

definition dec_product :: "pydec \<Rightarrow> pydec \<Rightarrow> py_error + pydec" where
  "dec_product x y =
     (if x = DSNaN \<or> y = DSNaN then Inl InvalidOperation
      else if x = DNaN \<or> y = DNaN then Inr DNaN
      else
        (case (x, y) of
           (DFin a, DFin b) \<Rightarrow>
             (case dec_mul a b of Inl e \<Rightarrow> Inl e | Inr c \<Rightarrow> Inr (DFin c))
         | (DFin a, _) \<Rightarrow> (if a = 0 then Inl InvalidOperation else Inr DInf)
         | (_, DFin b) \<Rightarrow> (if b = 0 then Inl InvalidOperation else Inr DInf)
         | _ \<Rightarrow> Inr DInf))"

text \<open>\<open>int\<close> of a \<open>Decimal\<close>, and of a \<open>float\<close>: truncation towards zero.\<close>

definition trunc_zero :: "rat \<Rightarrow> int" where
  "trunc_zero x = (if 0 \<le> x then \<lfloor>x\<rfloor> else \<lceil>x\<rceil>)"

subsection \<open>Sequencing of steps that may raise\<close>

definition and_then :: "'e + 'a \<Rightarrow> ('a \<Rightarrow> 'e + 'b) \<Rightarrow> 'e + 'b" where
  "and_then r f = (case r of Inl e \<Rightarrow> Inl e | Inr v \<Rightarrow> f v)"

section \<open>Order lifecycle monitor (services/order\_monitor.py)\<close>

subsection \<open>Venue objects\<close>

text \<open>
  The members of the brokerage library's \<open>OrderStatus\<close> enumeration. The monitor
  compares a status with \<open>FILLED\<close>, \<open>CANCELED\<close> and \<open>EXPIRED\<close> only.
\<close>

datatype order_status =
    NEW | PARTIALLY_FILLED | FILLED | DONE_FOR_DAY | CANCELED | EXPIRED | REPLACED
  | PENDING_CANCEL | PENDING_REPLACE | PENDING_REVIEW | ACCEPTED | PENDING_NEW
  | ACCEPTED_FOR_BIDDING | STOPPED | REJECTED | SUSPENDED | CALCULATED | HELD

text \<open>
  An order object as the venue returns it, with the attributes the monitor reads.
  \<open>filled_avg_price\<close> and \<open>filled_qty\<close> hold the \<open>Decimal\<close> that
  \<open>Decimal(str(field))\<close> yields, and \<open>None\<close> when that conversion raises (the
  attribute is Python's \<open>None\<close> or text that is no number).
\<close>

record order =
  order_id :: string
  symbol :: string
  side :: string
  otype :: string
  qty :: string
  filled_qty :: "pydec option"
  filled_avg_price :: "pydec option"
  limit_price :: "string option"
  stop_price :: "string option"
  status :: order_status
  created_at :: string
  updated_at :: string

record position =
  pos_symbol :: string
  pos_qty :: string
  avg_entry_price :: string
  current_price :: string
  unrealized_pl :: string
  unrealized_plpc :: string
  market_value :: string
  cost_basis :: string
  asset_class :: string

text \<open>An exception raised by a venue call, with its message.\<close>

datatype exn = Exn string

text \<open>
  The trading client, as the three queries the monitor makes of it. Each query
  either raises (\<open>Inl\<close>) or returns (\<open>Inr\<close>). \<open>get_orders\<close> is the answer to the
  request for today's open orders, the only request the monitor sends.
\<close>

record client =
  get_orders :: "exn + order list"
  get_order_by_id :: "string \<Rightarrow> exn + order"
  get_all_positions :: "exn + position list"

subsection \<open>Monitor state and log\<close>

text \<open>
  The attributes of \<open>OrderMonitor\<close>. \<open>active_orders\<close> is a Python dict: an
  association list in insertion order.
\<close>

record monitor =
  check_interval :: nat
  active_orders :: "(string \<times> order) list"
  running :: bool

text \<open>
  What a cycle does besides changing the monitor: the log lines, and the call of the
  risk management hook. \<open>OrderFilled\<close> is the "Order filled" line followed by the call
  of \<open>_place_risk_management_orders\<close> on the order; it carries quantity, price and
  total value (the line prints the total with two decimals). \<open>OrderCancelled\<close> is the "Order cancelled/expired" line.
\<close>

datatype event =
    OrderFilled order pydec pydec pydec
  | OrderCancelled order
  | ErrorHandlingFilled string
  | ErrorGettingOrder string
  | ErrorCheckingOrders
  | ActiveOrdersUpdated nat
  | ActivePositionsOrders nat nat
  | ErrorGettingPositionsOrders
  | MonitoringStarted
  | MonitoringStopped

definition init_monitor :: "nat \<Rightarrow> monitor" where
  "init_monitor interval = \<lparr>check_interval = interval, active_orders = [], running = False\<rparr>"

definition stop_monitoring :: "monitor \<Rightarrow> monitor \<times> event list" where
  "stop_monitoring m = (m\<lparr>running := False\<rparr>, [MonitoringStopped])"

subsection \<open>Handling an order that left the open set\<close>

text \<open>
  \<open>_handle_filled_order\<close>: both conversions and the product
  \<open>fill_price * filled_qty\<close> sit in one \<open>try\<close>; when any of them raises, the error
  is logged and neither the fill line nor the hook call happens.
\<close>

definition handle_filled_order :: "order \<Rightarrow> event list" where
  "handle_filled_order ord =
     (case filled_avg_price ord of
        None \<Rightarrow> [ErrorHandlingFilled (order_id ord)]
      | Some fill_price \<Rightarrow>
          (case filled_qty ord of
             None \<Rightarrow> [ErrorHandlingFilled (order_id ord)]
           | Some fqty \<Rightarrow>
               (case dec_product fill_price fqty of
                  Inl e \<Rightarrow> [ErrorHandlingFilled (order_id ord)]
                | Inr total_value \<Rightarrow> [OrderFilled ord fqty fill_price total_value])))"

definition handle_cancelled_order :: "order \<Rightarrow> event list" where
  "handle_cancelled_order ord = [OrderCancelled ord]"

definition handle_order_update :: "order \<Rightarrow> event list" where
  "handle_order_update ord =
     (if status ord = FILLED then handle_filled_order ord
      else if status ord \<in> set [CANCELED, EXPIRED] then handle_cancelled_order ord
      else [])"

subsection \<open>One poll cycle\<close>

text \<open>The dict comprehension \<open>{order.id: order for order in orders}\<close>.\<close>

definition orders_by_id :: "order list \<Rightarrow> (string \<times> order) list" where
  "orders_by_id ords = foldl (\<lambda>d ord. AList.update (order_id ord) ord d) [] ords"

text \<open>The body of the loop over the previous cycle's orders, for one of them.\<close>

definition check_previous :: "client \<Rightarrow> (string \<times> order) list \<Rightarrow> string \<times> order \<Rightarrow> event list" where
  "check_previous c current_orders p =
     (if fst p \<notin> set (map fst current_orders) then
        (case get_order_by_id c (fst p) of
           Inr ord \<Rightarrow> handle_order_update ord
         | Inl e \<Rightarrow> [ErrorGettingOrder (fst p)])
      else [])"

definition check_orders :: "client \<Rightarrow> monitor \<Rightarrow> monitor \<times> event list" where
  "check_orders c m =
     (case get_orders c of
        Inl e \<Rightarrow> (m, [ErrorCheckingOrders])
      | Inr ords \<Rightarrow>
          (let current_orders = orders_by_id ords
           in (m\<lparr>active_orders := current_orders\<rparr>,
               concat (map (check_previous c current_orders) (active_orders m))
                 @ [ActiveOrdersUpdated (length current_orders)])))"

subsection \<open>The monitoring loop\<close>

text \<open>
  \<open>start_monitoring\<close> sets the running flag and repeats: poll, then sleep. The loop is
  run against a schedule with one entry per iteration: what the client answers during
  that poll, and whether \<open>stop_monitoring\<close> is called while the loop sleeps after it.
  The loop ends when the flag is found cleared; a schedule that runs out leaves the
  loop where it is.
\<close>

fun monitoring_loop :: "(client \<times> bool) list \<Rightarrow> monitor \<Rightarrow> monitor \<times> event list" where
  "monitoring_loop [] m = (m, [])"
| "monitoring_loop ((c, stop) # sched) m =
     (if running m then
        (let (m1, evs1) = check_orders c m;
             (m2, evs2) = (if stop then stop_monitoring m1 else (m1, []));
             (m3, evs3) = monitoring_loop sched m2
         in (m3, evs1 @ evs2 @ evs3))
      else (m, []))"

definition start_monitoring :: "(client \<times> bool) list \<Rightarrow> monitor \<Rightarrow> monitor \<times> event list" where
  "start_monitoring sched m =
     (let (m', evs) = monitoring_loop sched (m\<lparr>running := True\<rparr>)
      in (m', MonitoringStarted # evs))"

subsection \<open>Snapshot query\<close>

record position_row =
  row_symbol :: string
  row_qty :: string
  row_entry_price :: string
  row_current_price :: string
  row_unrealized_pl :: string
  row_unrealized_plpc :: string
  row_market_value :: string
  row_cost_basis :: string

definition position_data :: "position \<Rightarrow> position_row" where
  "position_data pos =
     \<lparr>row_symbol = pos_symbol pos, row_qty = pos_qty pos,
      row_entry_price = avg_entry_price pos, row_current_price = current_price pos,
      row_unrealized_pl = unrealized_pl pos, row_unrealized_plpc = unrealized_plpc pos,
      row_market_value = market_value pos, row_cost_basis = cost_basis pos\<rparr>"

record order_row =
  row_id :: string
  row_order_symbol :: string
  row_side :: string
  row_type :: string
  row_order_qty :: string
  row_filled_qty :: "pydec option"
  row_limit_price :: "string option"
  row_stop_price :: "string option"
  row_status :: order_status
  row_created_at :: string
  row_updated_at :: string

definition order_data :: "order \<Rightarrow> order_row" where
  "order_data ord =
     \<lparr>row_id = order_id ord, row_order_symbol = symbol ord, row_side = side ord,
      row_type = otype ord, row_order_qty = qty ord, row_filled_qty = filled_qty ord,
      row_limit_price = limit_price ord, row_stop_price = stop_price ord,
      row_status = status ord, row_created_at = created_at ord,
      row_updated_at = updated_at ord\<rparr>"

text \<open>The returned dict \<open>{'positions': ..., 'orders': ...}\<close>.\<close>

record snapshot =
  positions :: "position_row list"
  orders :: "order_row list"

text \<open>
  The query returns the snapshot; the monitor it was called on and the log lines it
  wrote are returned beside it.
\<close>

definition get_active_positions_and_orders ::
  "client \<Rightarrow> monitor \<Rightarrow> snapshot \<times> monitor \<times> event list" where
  "get_active_positions_and_orders c m =
     (case get_all_positions c of
        Inl e \<Rightarrow> (\<lparr>positions = [], orders = []\<rparr>, m, [ErrorGettingPositionsOrders])
      | Inr ps \<Rightarrow>
          (case get_orders c of
             Inl e \<Rightarrow> (\<lparr>positions = [], orders = []\<rparr>, m, [ErrorGettingPositionsOrders])
           | Inr ords \<Rightarrow>
               (\<lparr>positions = map position_data ps, orders = map order_data ords\<rparr>, m,
                [ActivePositionsOrders (length ps) (length ords)])))"

subsection \<open>Counting the terminal classifications of one order\<close>

text \<open>
  A filled-order event and a terminal-cancellation event name the order they are
  about; the counts below are taken over the events of one cycle.
\<close>

fun is_filled_event_for :: "string \<Rightarrow> event \<Rightarrow> bool" where
  "is_filled_event_for oid (OrderFilled ord q p t) = (order_id ord = oid)"
| "is_filled_event_for oid _ = False"

fun is_cancelled_event_for :: "string \<Rightarrow> event \<Rightarrow> bool" where
  "is_cancelled_event_for oid (OrderCancelled ord) = (order_id ord = oid)"
| "is_cancelled_event_for oid _ = False"

definition filled_events :: "string \<Rightarrow> event list \<Rightarrow> nat" where
  "filled_events oid evs = length (filter (is_filled_event_for oid) evs)"

definition cancelled_events :: "string \<Rightarrow> event list \<Rightarrow> nat" where
  "cancelled_events oid evs = length (filter (is_cancelled_event_for oid) evs)"

definition terminal_events :: "string \<Rightarrow> event list \<Rightarrow> nat" where
  "terminal_events oid evs = filled_events oid evs + cancelled_events oid evs"

text \<open>
  The venue answers a query by id with the order of that id (for the ids listed).
\<close>

definition id_coherent :: "client \<Rightarrow> string list \<Rightarrow> bool" where
  "id_coherent c ids =
     (\<forall>i \<in> set ids. case get_order_by_id c i of Inl e \<Rightarrow> True | Inr ord \<Rightarrow> order_id ord = i)"

subsection \<open>Concrete venue states\<close>

definition sample_order :: "string \<Rightarrow> order_status \<Rightarrow> order" where
  "sample_order oid st =
     \<lparr>order_id = oid, symbol = ''AAPL'', side = ''buy'', otype = ''stop_limit'', qty = ''10'',
      filled_qty = Some (DFin 10), filled_avg_price = Some (DFin 150), limit_price = Some ''151'',
      stop_price = Some ''150'', status = st, created_at = ''2024-01-02'',
      updated_at = ''2024-01-02''\<rparr>"

text \<open>
  A client whose open-order query returns \<open>open_orders\<close> and which reports every order
  asked for by id in status \<open>st\<close>.
\<close>

definition sample_client :: "order list \<Rightarrow> order_status \<Rightarrow> client" where
  "sample_client open_orders st =
     \<lparr>get_orders = Inr open_orders, get_order_by_id = (\<lambda>i. Inr (sample_order i st)),
      get_all_positions = Inr []\<rparr>"

text \<open>A client none of whose queries succeeds.\<close>

definition failing_client :: client where
  "failing_client =
     \<lparr>get_orders = Inl (Exn ''timeout''), get_order_by_id = (\<lambda>i. Inl (Exn ''timeout'')),
      get_all_positions = Inl (Exn ''timeout'')\<rparr>"

text \<open>
  A client that reports every order asked for by id as filled, with the quantity 10 and
  the fill price \<open>1E+999999\<close>.
\<close>

definition overflowing_client :: client where
  "overflowing_client =
     \<lparr>get_orders = Inr [],
      get_order_by_id =
        (\<lambda>i. Inr ((sample_order i FILLED)\<lparr>filled_avg_price := Some (DFin (10 powi emax))\<rparr>)),
      get_all_positions = Inr []\<rparr>"

text \<open>A running monitor that saw the order \<open>X\<close> open in its last cycle.\<close>

definition tracking_X :: monitor where
  "tracking_X =
     \<lparr>check_interval = 60, active_orders = [(''X'', sample_order ''X'' ACCEPTED)],
      running = True\<rparr>"

section \<open>Order submission (services/alpaca\_service.py)\<close>

datatype order_side = BUY | SELL

datatype time_in_force = DAY | GTC | OPG | CLS | IOC | FOK

text \<open>
  The fields of \<open>StopLimitOrderRequest\<close>. The prices are the two-place decimals that
  \<open>round(price, 2)\<close> yields; the source converts them to the nearest \<open>float\<close>, which
  is not modelled.
\<close>

record stop_limit_request =
  req_symbol :: string
  req_qty :: int
  req_side :: order_side
  req_time_in_force :: time_in_force
  req_limit_price :: rat
  req_stop_price :: rat

text \<open>The two exceptions \<open>place_stop_limit_order\<close> raises.\<close>

datatype place_error = ValueError_place string | RuntimeError_place string

text \<open>
  What the library raises inside the \<open>try\<close> block: a \<open>ValueError\<close> (the request
  model's validation error is one) or any other exception.
\<close>

datatype lib_exn = LibValueError string | LibOtherError string

text \<open>
  The brokerage library, as \<open>place_stop_limit_order\<close> uses it: the constructor of the
  request, which validates its fields and may raise, and \<open>submit_order\<close>.
\<close>

record 'r order_api =
  request_check :: "stop_limit_request \<Rightarrow> lib_exn option"
  submit_order :: "stop_limit_request \<Rightarrow> lib_exn + 'r"

text \<open>
  \<open>round(price, 2)\<close> on a \<open>Decimal\<close>: the price quantized to two places, ties to
  even. It raises \<open>InvalidOperation\<close> when the result needs more than the context's
  28 digits.
\<close>

definition round_price :: "rat \<Rightarrow> rat option" where
  "round_price x =
     (let c = round_half_even (\<bar>x\<bar> * 100)
      in if c < 10 ^ 28 then Some (sgn x * of_int c / 100) else None)"

definition handle_lib_exn :: "lib_exn \<Rightarrow> place_error" where
  "handle_lib_exn ex =
     (case ex of
        LibValueError msg \<Rightarrow> ValueError_place (''Invalid order parameters: '' @ msg)
      | LibOtherError msg \<Rightarrow> RuntimeError_place (''Order placement failed: '' @ msg))"

definition place_stop_limit_order ::
  "'r order_api \<Rightarrow> string \<Rightarrow> int \<Rightarrow> rat \<Rightarrow> rat \<Rightarrow> string \<Rightarrow> string \<Rightarrow> place_error + 'r" where
  "place_stop_limit_order api symb quantity limit_p stop_p side_str tif_str =
     (let order_side = (if lower side_str = ''buy'' then BUY else SELL);
          order_tif = (if lower tif_str = ''gtc'' then GTC else DAY)
      in case round_price limit_p of
           None \<Rightarrow> Inl (handle_lib_exn (LibOtherError ''InvalidOperation''))
         | Some rounded_limit_price \<Rightarrow>
             (case round_price stop_p of
                None \<Rightarrow> Inl (handle_lib_exn (LibOtherError ''InvalidOperation''))
              | Some rounded_stop_price \<Rightarrow>
                  (let req = \<lparr>req_symbol = symb, req_qty = quantity, req_side = order_side,
                               req_time_in_force = order_tif,
                               req_limit_price = rounded_limit_price,
                               req_stop_price = rounded_stop_price\<rparr>
                   in case request_check api req of
                        Some ex \<Rightarrow> Inl (handle_lib_exn ex)
                      | None \<Rightarrow>
                          (case submit_order api req of
                             Inl ex \<Rightarrow> Inl (handle_lib_exn ex)
                           | Inr response \<Rightarrow> Inr response))))"

text \<open>A library that accepts every request and answers with the request it was sent.\<close>

definition echo_api :: "stop_limit_request order_api" where
  "echo_api = \<lparr>request_check = (\<lambda>req. None), submit_order = (\<lambda>req. Inr req)\<rparr>"

section \<open>Signal processing (services/signal\_processor.py)\<close>

subsection \<open>Signal keys\<close>

definition parse_signal_key :: "string \<Rightarrow> py_error + string \<times> int" where
  "parse_signal_key key =
     (case str_split ''_w'' key of
        [symbol_part, window] \<Rightarrow>
          (case py_int window of
             Inl e \<Rightarrow> Inl e
           | Inr n \<Rightarrow> Inr (symbol_part, n))
      | _ \<Rightarrow> Inl ValueError)"

text \<open>The decimal numeral of a natural number, as \<open>str\<close> writes it.\<close>

fun decimal :: "nat \<Rightarrow> string" where
  "decimal n = (if n < 10 then [char_of (48 + n)] else decimal (n div 10) @ [char_of (48 + n mod 10)])"

declare decimal.simps [simp del]

subsection \<open>The decoded feed\<close>

text \<open>
  A value as \<open>json.load\<close> returns it. A \<open>float\<close> is carried as the rational number
  it equals; the infinities and NaN are outside the model. A dict is an association
  list in the order of the file.
\<close>

datatype json =
    JNull | JBool bool | JInt int | JFloat rat | JStr string
  | JArr "json list" | JObj "(string \<times> json) list"

text \<open>
  The conversions of the Python library that the signal processor calls and that are
  taken as given: \<open>float\<close> of a string (\<open>None\<close> when it raises \<open>ValueError\<close>) and of
  an \<open>int\<close> (\<open>None\<close> when it raises \<open>OverflowError\<close>), the division of two floats,
  the decimal that \<open>Decimal(str(x))\<close> yields for a float \<open>x\<close>, and \<open>Decimal\<close> of a
  string (\<open>None\<close> when it raises \<open>InvalidOperation\<close>).
\<close>

record pylib =
  float_of_str :: "string \<Rightarrow> rat option"
  float_of_int :: "int \<Rightarrow> rat option"
  float_div :: "rat \<Rightarrow> rat \<Rightarrow> rat"
  decimal_of_float :: "rat \<Rightarrow> rat"
  decimal_of_str :: "string \<Rightarrow> rat option"

text \<open>Subscription \<open>v[k]\<close> with a string key.\<close>

definition getitem :: "json \<Rightarrow> string \<Rightarrow> py_error + json" where
  "getitem v k =
     (case v of
        JObj kvs \<Rightarrow> (case map_of kvs k of None \<Rightarrow> Inl (KeyError k) | Some x \<Rightarrow> Inr x)
      | _ \<Rightarrow> Inl TypeError)"

fun get_path :: "json \<Rightarrow> string list \<Rightarrow> py_error + json" where
  "get_path v [] = Inr v"
| "get_path v (k # ks) = and_then (getitem v k) (\<lambda>x. get_path x ks)"

text \<open>The comparison \<open>v < t\<close> of a decoded value with a float.\<close>

definition less_than :: "json \<Rightarrow> rat \<Rightarrow> py_error + bool" where
  "less_than v t =
     (case v of
        JInt i \<Rightarrow> Inr (of_int i < t)
      | JFloat x \<Rightarrow> Inr (x < t)
      | JBool b \<Rightarrow> Inr ((if b then 1 else 0) < t)
      | _ \<Rightarrow> Inl TypeError)"

text \<open>\<open>float(v)\<close>.\<close>

definition to_float :: "pylib \<Rightarrow> json \<Rightarrow> py_error + rat" where
  "to_float lib v =
     (case v of
        JFloat x \<Rightarrow> Inr x
      | JInt i \<Rightarrow> (case float_of_int lib i of None \<Rightarrow> Inl OverflowError | Some x \<Rightarrow> Inr x)
      | JBool b \<Rightarrow> Inr (if b then 1 else 0)
      | JStr s \<Rightarrow> (case float_of_str lib s of None \<Rightarrow> Inl ValueError | Some x \<Rightarrow> Inr x)
      | _ \<Rightarrow> Inl TypeError)"

text \<open>
  \<open>Decimal(str(v))\<close>. The text of \<open>None\<close>, of a bool, of a list and of a dict is no
  number.
\<close>

definition to_decimal :: "pylib \<Rightarrow> json \<Rightarrow> py_error + rat" where
  "to_decimal lib v =
     (case v of
        JInt i \<Rightarrow> Inr (of_int i)
      | JFloat x \<Rightarrow> Inr (decimal_of_float lib x)
      | JStr s \<Rightarrow> (case decimal_of_str lib s of None \<Rightarrow> Inl InvalidOperation | Some x \<Rightarrow> Inr x)
      | _ \<Rightarrow> Inl InvalidOperation)"

text \<open>\<open>int(v)\<close>.\<close>

definition to_int :: "json \<Rightarrow> py_error + int" where
  "to_int v =
     (case v of
        JInt i \<Rightarrow> Inr i
      | JFloat x \<Rightarrow> Inr (trunc_zero x)
      | JBool b \<Rightarrow> Inr (if b then 1 else 0)
      | JStr s \<Rightarrow> py_int s
      | _ \<Rightarrow> Inl TypeError)"

text \<open>\<open>float(v.split('%')[0]) / 100\<close>.\<close>

definition percent_fraction :: "pylib \<Rightarrow> json \<Rightarrow> py_error + rat" where
  "percent_fraction lib v =
     (case v of
        JStr s \<Rightarrow>
          (case float_of_str lib (hd (str_split ''%'' s)) of
             None \<Rightarrow> Inl ValueError
           | Some x \<Rightarrow> Inr (float_div lib x 100))
      | _ \<Rightarrow> Inl AttributeError)"

subsection \<open>Signals\<close>

record trading_signal =
  sig_date :: json
  sig_symbol :: string
  signal_type :: json
  confidence :: rat
  sig_current_price :: rat
  entry_price :: rat
  entry_limit_price :: rat
  take_profit :: rat
  stop_loss :: rat
  position_size :: rat
  time_barrier_days :: int
  expiry_date :: json
  volatility :: rat
  risk_reward_ratio :: rat
  window_weeks :: int

text \<open>The construction of the \<open>TradingSignal\<close>; the arguments are evaluated in order.\<close>

definition make_signal :: "pylib \<Rightarrow> string \<Rightarrow> int \<Rightarrow> json \<Rightarrow> py_error + trading_signal" where
  "make_signal lib symbol_part weeks signal_data =
     and_then (getitem signal_data ''date'') (\<lambda>v_date.
     and_then (get_path signal_data [''signal'', ''type'']) (\<lambda>v_type.
     and_then (and_then (get_path signal_data [''signal'', ''confidence'']) (to_float lib)) (\<lambda>v_conf.
     and_then (and_then (getitem signal_data ''current_price'') (to_decimal lib)) (\<lambda>v_cur.
     and_then (and_then (get_path signal_data [''orders'', ''entry'', ''stop_price'']) (to_decimal lib)) (\<lambda>v_entry.
     and_then (and_then (get_path signal_data [''orders'', ''entry'', ''limit_price'']) (to_decimal lib)) (\<lambda>v_limit.
     and_then (and_then (get_path signal_data [''orders'', ''take_profit'', ''price'']) (to_decimal lib)) (\<lambda>v_tp.
     and_then (and_then (get_path signal_data [''orders'', ''stop_loss'', ''price'']) (to_decimal lib)) (\<lambda>v_sl.
     and_then (and_then (get_path signal_data [''position_size'', ''recommended_size'']) (percent_fraction lib)) (\<lambda>v_size.
     and_then (and_then (get_path signal_data [''time_barrier'', ''days'']) to_int) (\<lambda>v_days.
     and_then (get_path signal_data [''time_barrier'', ''expiry_date'']) (\<lambda>v_expiry.
     and_then (and_then (get_path signal_data [''metrics'', ''daily_volatility'']) (to_float lib)) (\<lambda>v_vol.
     and_then (and_then (get_path signal_data [''metrics'', ''risk_reward_ratio'']) (to_float lib)) (\<lambda>v_rr.
       Inr \<lparr>sig_date = v_date, sig_symbol = symbol_part, signal_type = v_type,
            confidence = v_conf, sig_current_price = v_cur, entry_price = v_entry,
            entry_limit_price = v_limit, take_profit = v_tp, stop_loss = v_sl,
            position_size = v_size, time_barrier_days = v_days, expiry_date = v_expiry,
            volatility = v_vol, risk_reward_ratio = v_rr, window_weeks = weeks\<rparr>)))))))))))))"

text \<open>
  The condition of the \<open>continue\<close>:
  \<open>target_symbols and symbol not in target_symbols or confidence < min_confidence or
  risk_reward_ratio < min_risk_reward\<close>, evaluated from the left. An allow-list that is
  \<open>None\<close> or empty is false.
\<close>

definition filtered_out ::
  "string list option \<Rightarrow> rat \<Rightarrow> rat \<Rightarrow> string \<Rightarrow> json \<Rightarrow> py_error + bool" where
  "filtered_out target_symbols min_confidence min_risk_reward symbol_part signal_data =
     (if (case target_symbols of None \<Rightarrow> False
          | Some syms \<Rightarrow> syms \<noteq> [] \<and> symbol_part \<notin> set syms)
      then Inr True
      else
        and_then (and_then (get_path signal_data [''signal'', ''confidence''])
                   (\<lambda>v. less_than v min_confidence)) (\<lambda>low_confidence.
          if low_confidence then Inr True
          else and_then (get_path signal_data [''metrics'', ''risk_reward_ratio''])
                 (\<lambda>v. less_than v min_risk_reward)))"

text \<open>
  The share quantity
  \<open>int(account_value * Decimal(str(signal.position_size)) / signal.entry_price)\<close>;
  \<open>size_dec\<close> is the decimal \<open>Decimal(str(signal.position_size))\<close>.
\<close>

definition share_quantity :: "rat \<Rightarrow> rat \<Rightarrow> rat \<Rightarrow> py_error + int" where
  "share_quantity account_value size_dec entry =
     and_then (dec_mul account_value size_dec) (\<lambda>product.
     and_then (dec_div product entry) (\<lambda>quotient. Inr (trunc_zero quotient)))"

text \<open>
  The body of the loop for one entry of the feed: an error, or \<open>None\<close> when the entry
  is skipped, or the symbol with the signal and its quantity.
\<close>

definition process_entry ::
  "pylib \<Rightarrow> rat \<Rightarrow> string list option \<Rightarrow> rat \<Rightarrow> rat \<Rightarrow> string \<times> json
   \<Rightarrow> py_error + (string \<times> trading_signal \<times> int) option" where
  "process_entry lib account_value target_symbols min_confidence min_risk_reward entry =
     and_then (parse_signal_key (fst entry)) (\<lambda>(symbol_part, weeks).
     and_then (filtered_out target_symbols min_confidence min_risk_reward symbol_part (snd entry))
       (\<lambda>skip.
          if skip then Inr None
          else
            and_then (make_signal lib symbol_part weeks (snd entry)) (\<lambda>signal.
            and_then (share_quantity account_value (decimal_of_float lib (position_size signal))
                        (entry_price signal)) (\<lambda>shares.
              Inr (Some (symbol_part, signal, shares))))))"

text \<open>
  \<open>if symbol not in signals: signals[symbol] = []\<close> followed by the \<open>append\<close>.
\<close>

definition add_signal ::
  "(string \<times> (trading_signal \<times> int) list) list \<Rightarrow> string \<Rightarrow> trading_signal \<times> int
   \<Rightarrow> (string \<times> (trading_signal \<times> int) list) list" where
  "add_signal signals symbol_part item =
     (case map_of signals symbol_part of
        None \<Rightarrow> signals @ [(symbol_part, [item])]
      | Some items \<Rightarrow> AList.update symbol_part (items @ [item]) signals)"

text \<open>The loop over \<open>data.items()\<close>; the first error ends it.\<close>

fun process_entries ::
  "pylib \<Rightarrow> rat \<Rightarrow> string list option \<Rightarrow> rat \<Rightarrow> rat
   \<Rightarrow> (string \<times> (trading_signal \<times> int) list) list \<Rightarrow> (string \<times> json) list
   \<Rightarrow> py_error + (string \<times> (trading_signal \<times> int) list) list" where
  "process_entries lib account_value target_symbols min_confidence min_risk_reward signals [] =
     Inr signals"
| "process_entries lib account_value target_symbols min_confidence min_risk_reward signals
     (entry # rest) =
     (case process_entry lib account_value target_symbols min_confidence min_risk_reward entry of
        Inl e \<Rightarrow> Inl e
      | Inr None \<Rightarrow>
          process_entries lib account_value target_symbols min_confidence min_risk_reward
            signals rest
      | Inr (Some (symbol_part, signal, shares)) \<Rightarrow>
          process_entries lib account_value target_symbols min_confidence min_risk_reward
            (add_signal signals symbol_part (signal, shares)) rest)"

text \<open>
  The exception classes of the \<open>except\<close> clause: \<open>json.JSONDecodeError\<close>,
  \<open>KeyError\<close> and \<open>ValueError\<close>. The other classes of \<open>py_error\<close> derive from
  none of them.
\<close>

definition caught :: "py_error \<Rightarrow> bool" where
  "caught e =
     (case e of KeyError k \<Rightarrow> True | ValueError \<Rightarrow> True | JSONDecodeError \<Rightarrow> True
      | _ \<Rightarrow> False)"

text \<open>
  \<open>process_trading_signals\<close>. \<open>loaded\<close> is what opening the file and \<open>json.load\<close>
  give: an error or the decoded document. The result is the mapping or the error
  raised, paired with the errors logged: an error that the \<open>except\<close> clause catches
  is logged and raised again, any other error passes through unlogged.
\<close>

definition process_trading_signals ::
  "pylib \<Rightarrow> py_error + json \<Rightarrow> rat \<Rightarrow> string list option \<Rightarrow> rat \<Rightarrow> rat
   \<Rightarrow> (py_error + (string \<times> (trading_signal \<times> int) list) list) \<times> py_error list" where
  "process_trading_signals lib loaded account_value target_symbols min_confidence
     min_risk_reward =
     (let outcome =
            (case loaded of
               Inl e \<Rightarrow> Inl e
             | Inr (JObj entries) \<Rightarrow>
                 process_entries lib account_value target_symbols min_confidence
                   min_risk_reward [] entries
             | Inr _ \<Rightarrow> Inl AttributeError)
      in (outcome,
          case outcome of Inl e \<Rightarrow> (if caught e then [e] else []) | Inr signals \<Rightarrow> []))"

subsection \<open>Reading a signal object\<close>

text \<open>
  The number held by the field \<open>inner\<close> of the object \<open>outer\<close> of a signal object,
  when there is one. Python reads a bool as 0 or 1 in a comparison.
\<close>

definition number_at :: "json \<Rightarrow> string \<Rightarrow> string \<Rightarrow> rat option" where
  "number_at signal_data outer inner =
     (case signal_data of
        JObj kvs \<Rightarrow>
          (case map_of kvs outer of
             Some (JObj sub) \<Rightarrow>
               (case map_of sub inner of
                  Some (JFloat x) \<Rightarrow> Some x
                | Some (JInt i) \<Rightarrow> Some (of_int i)
                | Some (JBool b) \<Rightarrow> Some (if b then 1 else 0)
                | _ \<Rightarrow> None)
           | _ \<Rightarrow> None)
      | _ \<Rightarrow> None)"

subsection \<open>A concrete feed\<close>

text \<open>
  A library that reads the strings \<open>10\<close> and \<open>12.5\<close> and for the rest behaves like
  exact arithmetic on the numbers used below.
\<close>

definition sample_lib :: pylib where
  "sample_lib =
     \<lparr>float_of_str = (\<lambda>s. if s = ''10'' then Some 10 else if s = ''12.5'' then Some (25 / 2)
                            else None),
      float_of_int = (\<lambda>i. Some (of_int i)),
      float_div = (\<lambda>x y. x / y),
      decimal_of_float = (\<lambda>x. x),
      decimal_of_str = (\<lambda>s. if s = ''100'' then Some 100 else None)\<rparr>"

text \<open>A well-formed signal object with the given confidence and risk/reward ratio.\<close>

definition sample_signal :: "rat \<Rightarrow> rat \<Rightarrow> json" where
  "sample_signal conf rr =
     JObj [(''date'', JStr ''2024-01-02''),
           (''current_price'', JInt 99),
           (''signal'', JObj [(''type'', JStr ''buy''), (''confidence'', JFloat conf)]),
           (''orders'', JObj [(''entry'', JObj [(''stop_price'', JInt 100),
                                                (''limit_price'', JInt 101)]),
                              (''take_profit'', JObj [(''price'', JInt 110)]),
                              (''stop_loss'', JObj [(''price'', JInt 95)])]),
           (''position_size'', JObj [(''recommended_size'', JStr ''10%'')]),
           (''time_barrier'', JObj [(''days'', JInt 5), (''expiry_date'', JStr ''2024-01-09'')]),
           (''metrics'', JObj [(''daily_volatility'', JFloat (1 / 50)),
                               (''risk_reward_ratio'', JFloat rr)])]"

text \<open>The signal that \<open>sample_signal\<close> is read as.\<close>

definition sample_trading_signal :: "string \<Rightarrow> int \<Rightarrow> rat \<Rightarrow> rat \<Rightarrow> trading_signal" where
  "sample_trading_signal symbol_part weeks conf rr =
     \<lparr>sig_date = JStr ''2024-01-02'', sig_symbol = symbol_part, signal_type = JStr ''buy'',
      confidence = conf, sig_current_price = 99, entry_price = 100, entry_limit_price = 101,
      take_profit = 110, stop_loss = 95, position_size = 1 / 10, time_barrier_days = 5,
      expiry_date = JStr ''2024-01-09'', volatility = 1 / 50, risk_reward_ratio = rr,
      window_weeks = weeks\<rparr>"

section \<open>Properties of the order lifecycle monitor\<close>

subsection \<open>Event counts\<close>

lemma events_append:
  "filled_events oid (xs @ ys) = filled_events oid xs + filled_events oid ys"
  "cancelled_events oid (xs @ ys) = cancelled_events oid xs + cancelled_events oid ys"
  by (simp_all add: filled_events_def cancelled_events_def)

lemma events_Nil:
  "filled_events oid [] = 0" "cancelled_events oid [] = 0"
  by (simp_all add: filled_events_def cancelled_events_def)

lemma events_of_log_lines:
  "filled_events oid [ErrorGettingOrder i] = 0" "cancelled_events oid [ErrorGettingOrder i] = 0"
  "filled_events oid [ActiveOrdersUpdated n] = 0" "cancelled_events oid [ActiveOrdersUpdated n] = 0"
  "filled_events oid [ErrorCheckingOrders] = 0" "cancelled_events oid [ErrorCheckingOrders] = 0"
  by (simp_all add: filled_events_def cancelled_events_def)

lemma handle_order_update_filled:
  "filled_events oid (handle_order_update ord) =
     (if order_id ord = oid \<and> status ord = FILLED
         \<and> (\<exists>fp fq total. filled_avg_price ord = Some fp \<and> filled_qty ord = Some fq
                      \<and> dec_product fp fq = Inr total) then 1 else 0)"
  by (auto simp: filled_events_def handle_order_update_def handle_filled_order_def
      handle_cancelled_order_def split: option.splits sum.splits)

lemma handle_order_update_cancelled:
  "cancelled_events oid (handle_order_update ord) =
     (if order_id ord = oid \<and> (status ord = CANCELED \<or> status ord = EXPIRED) then 1 else 0)"
  by (auto simp: cancelled_events_def handle_order_update_def handle_filled_order_def
      handle_cancelled_order_def split: option.splits sum.splits)

text \<open>The re-check of another order says nothing about the order \<open>oid\<close>.\<close>

lemma check_previous_other:
  assumes "id_coherent c [fst p]" and "fst p \<noteq> oid"
  shows "filled_events oid (check_previous c cur p) = 0"
    and "cancelled_events oid (check_previous c cur p) = 0"
  using assms
  by (auto simp: check_previous_def id_coherent_def handle_order_update_filled
      handle_order_update_cancelled events_Nil events_of_log_lines split: sum.splits)

lemma check_previous_same:
  assumes "id_coherent c [oid]" and "oid \<notin> fst ` set cur"
  shows "filled_events oid (check_previous c cur (oid, prev)) =
           (if \<exists>ord. get_order_by_id c oid = Inr ord \<and> status ord = FILLED
                 \<and> (\<exists>fp fq total. filled_avg_price ord = Some fp \<and> filled_qty ord = Some fq
                      \<and> dec_product fp fq = Inr total) then 1 else 0)"
    and "cancelled_events oid (check_previous c cur (oid, prev)) =
           (if \<exists>ord. get_order_by_id c oid = Inr ord
                 \<and> (status ord = CANCELED \<or> status ord = EXPIRED) then 1 else 0)"
  using assms
  by (auto simp: check_previous_def id_coherent_def handle_order_update_filled
      handle_order_update_cancelled events_Nil events_of_log_lines split: sum.splits)

lemma previous_orders_absent:
  assumes "id_coherent c (map fst ps)" and "oid \<notin> fst ` set ps"
  shows "filled_events oid (concat (map (check_previous c cur) ps)) = 0
       \<and> cancelled_events oid (concat (map (check_previous c cur) ps)) = 0"
  using assms
proof (induction ps)
  case Nil
  then show ?case by (simp add: events_Nil)
next
  case (Cons p ps)
  then have "id_coherent c [fst p]" "fst p \<noteq> oid" "id_coherent c (map fst ps)"
    "oid \<notin> fst ` set ps"
    by (auto simp: id_coherent_def)
  with Cons.IH show ?case
    by (simp add: events_append check_previous_other)
qed

lemma previous_orders_present:
  assumes "id_coherent c (map fst ps)" and "distinct (map fst ps)"
    and "oid \<in> fst ` set ps" and "oid \<notin> fst ` set cur"
  shows "filled_events oid (concat (map (check_previous c cur) ps)) =
           (if \<exists>ord. get_order_by_id c oid = Inr ord \<and> status ord = FILLED
                 \<and> (\<exists>fp fq total. filled_avg_price ord = Some fp \<and> filled_qty ord = Some fq
                      \<and> dec_product fp fq = Inr total) then 1 else 0)
       \<and> cancelled_events oid (concat (map (check_previous c cur) ps)) =
           (if \<exists>ord. get_order_by_id c oid = Inr ord
                 \<and> (status ord = CANCELED \<or> status ord = EXPIRED) then 1 else 0)"
  using assms
proof (induction ps)
  case Nil
  then show ?case by simp
next
  case (Cons p ps)
  have coh: "id_coherent c [fst p]" "id_coherent c (map fst ps)"
    using Cons.prems(1) by (auto simp: id_coherent_def)
  show ?case
  proof (cases "fst p = oid")
    case True
    then have "oid \<notin> fst ` set ps"
      using Cons.prems(2) by auto
    from previous_orders_absent[OF coh(2) this, of cur] show ?thesis
      using True coh(1) Cons.prems(4) check_previous_same[of c oid cur "snd p"]
      by (cases p) (simp add: events_append)
  next
    case False
    then have "oid \<in> fst ` set ps" and "distinct (map fst ps)"
      using Cons.prems by auto
    from Cons.IH[OF coh(2) this(2) this(1) Cons.prems(4)] show ?thesis
      using False coh(1) by (simp add: events_append check_previous_other)
  qed
qed

subsection \<open>The dict of open orders\<close>

lemma keys_update_all:
  "fst ` set (foldl (\<lambda>d ord. AList.update (order_id ord) ord d) d0 ords) =
     fst ` set d0 \<union> order_id ` set ords"
  by (induction ords arbitrary: d0) (auto simp: AList.dom_update)

lemma keys_orders_by_id: "fst ` set (orders_by_id ords) = order_id ` set ords"
  by (simp add: orders_by_id_def keys_update_all)

lemma distinct_update_all:
  "distinct (map fst d0) \<Longrightarrow>
     distinct (map fst (foldl (\<lambda>d ord. AList.update (order_id ord) ord d) d0 ords))"
  by (induction ords arbitrary: d0) (auto simp: AList.distinct_update)

lemma distinct_orders_by_id: "distinct (map fst (orders_by_id ords))"
  by (simp add: orders_by_id_def distinct_update_all)

text \<open>
  The keys of \<open>active_orders\<close> are distinct in every state the monitor reaches: it
  starts empty, and a cycle leaves it alone or replaces it by a dict.
\<close>

lemma distinct_init_monitor: "distinct (map fst (active_orders (init_monitor n)))"
  by (simp add: init_monitor_def)

lemma distinct_check_orders:
  "distinct (map fst (active_orders m)) \<Longrightarrow>
     distinct (map fst (active_orders (fst (check_orders c m))))"
  by (simp add: check_orders_def Let_def distinct_orders_by_id split: sum.splits)

lemma sample_client_coherent: "id_coherent (sample_client ords st) ids"
  by (simp add: id_coherent_def sample_client_def sample_order_def)

subsection \<open>The loop\<close>

text \<open>A monitor whose flag is cleared polls no more.\<close>

lemma monitoring_loop_not_running: "\<not> running m \<Longrightarrow> monitoring_loop sched m = (m, [])"
  by (cases sched) auto

text \<open>
  When \<open>stop_monitoring\<close> is called during the sleep after a poll, that poll is the
  last one.
\<close>

lemma monitoring_loop_stop:
  assumes "running m"
  shows "monitoring_loop ((c, True) # sched) m =
           ((fst (check_orders c m))\<lparr>running := False\<rparr>,
            snd (check_orders c m) @ [MonitoringStopped])"
  using assms
  by (simp add: stop_monitoring_def monitoring_loop_not_running split: prod.splits)

subsection \<open>Claims\<close>

text \<open>
  C1, as stated: every order of the previous cycle that is missing from the new open
  set gets exactly one terminal classification event. It fails: the order \<open>X\<close> was
  open, is missing from the new open set, and the venue reports it as \<open>REPLACED\<close>; the
  cycle emits no terminal event for it.
\<close>

theorem vanished_order_without_event:
  "''X'' \<in> fst ` set (active_orders tracking_X)
   \<and> get_orders (sample_client [] REPLACED) = Inr []
   \<and> terminal_events ''X'' (snd (check_orders (sample_client [] REPLACED) tracking_X)) = 0"
  by (simp add: tracking_X_def sample_client_def sample_order_def check_orders_def
      orders_by_id_def check_previous_def handle_order_update_def terminal_events_def
      filled_events_def cancelled_events_def)

text \<open>
  C1, amended: in a cycle whose open-order query succeeds, an order of the previous
  cycle that is missing from the new open set gets at most one terminal classification
  event, never a filled and a cancelled one. It gets one filled-order event exactly
  when the query by id returns it as \<open>FILLED\<close> with a fill price and quantity that
  read as decimals and whose product the decimal context computes without raising,
  one terminal-cancellation event exactly when the query returns it as \<open>CANCELED\<close> or
  \<open>EXPIRED\<close>, and no event otherwise: when the query raises, when it returns any
  other status, or when the fill price, the quantity or their product raises.
\<close>

theorem vanished_order_classified_at_most_once:
  assumes "get_orders c = Inr ords"
    and "distinct (map fst (active_orders m))"
    and "id_coherent c (map fst (active_orders m))"
    and "oid \<in> fst ` set (active_orders m)"
    and "oid \<notin> order_id ` set ords"
  shows "filled_events oid (snd (check_orders c m)) =
           (if \<exists>ord. get_order_by_id c oid = Inr ord \<and> status ord = FILLED
                 \<and> (\<exists>fp fq total. filled_avg_price ord = Some fp \<and> filled_qty ord = Some fq
                      \<and> dec_product fp fq = Inr total) then 1 else 0)
       \<and> cancelled_events oid (snd (check_orders c m)) =
           (if \<exists>ord. get_order_by_id c oid = Inr ord
                 \<and> (status ord = CANCELED \<or> status ord = EXPIRED) then 1 else 0)
       \<and> terminal_events oid (snd (check_orders c m)) \<le> 1"
proof -
  have absent: "oid \<notin> fst ` set (orders_by_id ords)"
    using assms(5) by (simp add: keys_orders_by_id)
  have counts:
    "filled_events oid (snd (check_orders c m)) =
       (if \<exists>ord. get_order_by_id c oid = Inr ord \<and> status ord = FILLED
             \<and> (\<exists>fp fq total. filled_avg_price ord = Some fp \<and> filled_qty ord = Some fq
                      \<and> dec_product fp fq = Inr total) then 1 else 0)"
    "cancelled_events oid (snd (check_orders c m)) =
       (if \<exists>ord. get_order_by_id c oid = Inr ord
             \<and> (status ord = CANCELED \<or> status ord = EXPIRED) then 1 else 0)"
    using previous_orders_present[OF assms(3) assms(2) assms(4) absent] assms(1)
    by (simp_all add: check_orders_def Let_def events_append events_of_log_lines)
  then have "terminal_events oid (snd (check_orders c m)) \<le> 1"
    unfolding terminal_events_def by (auto split: if_splits)
  with counts show ?thesis by simp
qed

theorem vanished_order_classified_at_most_once_witness:
  "filled_events ''X'' (snd (check_orders (sample_client [] FILLED) tracking_X)) = 1
   \<and> cancelled_events ''X'' (snd (check_orders (sample_client [] FILLED) tracking_X)) = 0
   \<and> terminal_events ''X'' (snd (check_orders (sample_client [] FILLED) tracking_X)) \<le> 1"
proof -
  have a1: "get_orders (sample_client [] FILLED) = Inr []"
    by (simp add: sample_client_def)
  have a2: "distinct (map fst (active_orders tracking_X))"
    by (simp add: tracking_X_def)
  have a3: "id_coherent (sample_client [] FILLED) (map fst (active_orders tracking_X))"
    by (rule sample_client_coherent)
  have a4: "''X'' \<in> fst ` set (active_orders tracking_X)"
    by (simp add: tracking_X_def)
  have a5: "''X'' \<notin> order_id ` set ([] :: order list)"
    by simp
  have a6: "dec_product (DFin 150) (DFin 10) = Inr (DFin 1500)"
    by code_simp
  show ?thesis
    using vanished_order_classified_at_most_once[OF a1 a2 a3 a4 a5] a6
    by (simp add: sample_client_def sample_order_def)
qed

text \<open>
  C5, as stated: an order that left the open set and whose status on re-query is not
  \<open>FILLED\<close>, \<open>CANCELED\<close> or \<open>EXPIRED\<close> stays tracked. It fails: \<open>X\<close> is reported as
  \<open>REPLACED\<close>, and after the cycle it is no longer a key of \<open>active_orders\<close>.
\<close>

theorem unclassified_order_dropped:
  "''X'' \<in> fst ` set (active_orders tracking_X)
   \<and> get_orders (sample_client [] REPLACED) = Inr []
   \<and> map_sum id status (get_order_by_id (sample_client [] REPLACED) ''X'') = Inr REPLACED
   \<and> ''X'' \<notin> fst ` set (active_orders (fst (check_orders (sample_client [] REPLACED) tracking_X)))"
  by (simp add: tracking_X_def sample_client_def sample_order_def check_orders_def
      orders_by_id_def)

text \<open>
  C5, amended: a cycle whose open-order query succeeds replaces \<open>active_orders\<close> by the
  dict of the orders just fetched, so an order that is missing from the new open set
  is not tracked after the cycle, whatever its status on re-query; it is looked at
  again only if a later open-order query returns it.
\<close>

theorem active_orders_replaced_by_open_set:
  assumes "get_orders c = Inr ords"
  shows "active_orders (fst (check_orders c m)) = orders_by_id ords
       \<and> fst ` set (active_orders (fst (check_orders c m))) = order_id ` set ords
       \<and> (oid \<notin> order_id ` set ords \<longrightarrow>
            oid \<notin> fst ` set (active_orders (fst (check_orders c m))))"
  using assms by (simp add: check_orders_def Let_def keys_orders_by_id)

theorem active_orders_replaced_by_open_set_witness:
  "active_orders (fst (check_orders (sample_client [] REPLACED) tracking_X)) = []
   \<and> ''X'' \<notin> fst ` set (active_orders (fst (check_orders (sample_client [] REPLACED) tracking_X)))"
proof -
  have a1: "get_orders (sample_client [] REPLACED) = Inr []"
    by (simp add: sample_client_def)
  show ?thesis
    using active_orders_replaced_by_open_set[OF a1, of tracking_X "''X''"]
    by (simp add: orders_by_id_def)
qed

text \<open>
  C8: the snapshot query returns the monitor it was called on unchanged, whatever the
  venue answers.
\<close>

theorem snapshot_query_leaves_monitor:
  "fst (snd (get_active_positions_and_orders c m)) = m"
  by (simp add: get_active_positions_and_orders_def split: sum.splits)

text \<open>
  C9: a cycle whose open-order query raises leaves the monitor as it was (the active
  orders and the running flag included) and emits no terminal event, only the error
  line; and the loop, unless stopped from outside, goes on with the next iteration
  from that same state.
\<close>

theorem failed_poll_is_noop:
  assumes "get_orders c = Inl e"
  shows "check_orders c m = (m, [ErrorCheckingOrders])
       \<and> active_orders (fst (check_orders c m)) = active_orders m
       \<and> running (fst (check_orders c m)) = running m
       \<and> terminal_events oid (snd (check_orders c m)) = 0
       \<and> (running m \<longrightarrow>
            monitoring_loop ((c, False) # sched) m =
              (fst (monitoring_loop sched m),
               ErrorCheckingOrders # snd (monitoring_loop sched m)))"
  using assms
  by (simp add: check_orders_def terminal_events_def events_of_log_lines split: prod.splits)

theorem failed_poll_is_noop_witness:
  "check_orders failing_client tracking_X = (tracking_X, [ErrorCheckingOrders])
   \<and> running (fst (check_orders failing_client tracking_X))
   \<and> monitoring_loop [(failing_client, False), (failing_client, False)] tracking_X =
       (tracking_X, [ErrorCheckingOrders, ErrorCheckingOrders])"
proof -
  have a1: "get_orders failing_client = Inl (Exn ''timeout'')"
    by (simp add: failing_client_def)
  have r: "running tracking_X"
    by (simp add: tracking_X_def)
  show ?thesis
    using failed_poll_is_noop[OF a1, of tracking_X "''X''" "[(failing_client, False)]"]
      failed_poll_is_noop[OF a1, of tracking_X "''X''" "[]"] r
    by simp
qed

text \<open>
  C10: when the positions query or the open-order query raises, the snapshot query
  raises nothing and returns empty positions and orders, the value it also returns
  for a venue that holds no position and no open order.
\<close>

theorem snapshot_failure_looks_empty:
  assumes "get_all_positions c = Inl e \<or> get_orders c = Inl e"
  shows "fst (get_active_positions_and_orders c m) = \<lparr>positions = [], orders = []\<rparr>
       \<and> (get_all_positions c' = Inr [] \<and> get_orders c' = Inr [] \<longrightarrow>
            fst (get_active_positions_and_orders c' m') =
            fst (get_active_positions_and_orders c m))"
  using assms
  by (auto simp: get_active_positions_and_orders_def split: sum.splits)

theorem snapshot_failure_looks_empty_witness:
  "fst (get_active_positions_and_orders failing_client tracking_X) =
     \<lparr>positions = [], orders = []\<rparr>
   \<and> fst (get_active_positions_and_orders (sample_client [] NEW) tracking_X) =
     fst (get_active_positions_and_orders failing_client tracking_X)"
proof -
  have a1: "get_all_positions failing_client = Inl (Exn ''timeout'')
            \<or> get_orders failing_client = Inl (Exn ''timeout'')"
    by (simp add: failing_client_def)
  have a2: "get_all_positions (sample_client [] NEW) = Inr []
            \<and> get_orders (sample_client [] NEW) = Inr []"
    by (simp add: sample_client_def)
  show ?thesis
    using snapshot_failure_looks_empty[OF a1, of tracking_X "sample_client [] NEW" tracking_X] a2
    by simp
qed

section \<open>Properties of order submission\<close>

lemma lower_hold: "lower ''hold'' = ''hold''"
  by (simp add: lower_def lower_char_def)

lemma lower_fok: "lower ''fok'' = ''fok''"
  by (simp add: lower_def lower_char_def)

lemma round_price_151: "round_price 151 = Some 151"
  by (simp add: round_price_def round_half_even_def Let_def)

lemma round_price_150: "round_price 150 = Some 150"
  by (simp add: round_price_def round_half_even_def Let_def)

text \<open>
  C7: a call with side \<open>hold\<close> and time in force \<open>fok\<close> raises nothing: the order goes
  out as a sell order for the day.
\<close>

theorem invalid_side_submitted_as_sell:
  "place_stop_limit_order echo_api ''AAPL'' 1 151 150 ''hold'' ''fok'' =
     Inr \<lparr>req_symbol = ''AAPL'', req_qty = 1, req_side = SELL, req_time_in_force = DAY,
          req_limit_price = 151, req_stop_price = 150\<rparr>"
  by (simp add: place_stop_limit_order_def lower_hold lower_fok round_price_151 round_price_150
      echo_api_def)

section \<open>Properties of signal keys\<close>

subsection \<open>Splitting\<close>

lemma strip_prefix_append: "strip_prefix p (p @ r) = Some r"
  by (induction p) auto

lemma strip_prefix_iff: "strip_prefix p s = Some r \<longleftrightarrow> s = p @ r"
  using strip_prefix_Some strip_prefix_append by blast

lemma strip_prefix_shorter: "strip_prefix p (s @ t) = None \<Longrightarrow> strip_prefix p s = None"
  by (induction p s rule: strip_prefix.induct) (auto split: if_splits)

lemma split_from_nonempty: "split_from sep acc s \<noteq> []"
  by (induction sep acc s rule: split_from.induct) (auto split: option.splits)

lemma split_from_no_occurrence:
  "sep \<noteq> [] \<Longrightarrow> \<not> occurs sep s \<Longrightarrow> split_from sep acc s = [rev acc @ s]"
  by (induction s arbitrary: acc) auto

lemma split_from_single:
  "sep \<noteq> [] \<Longrightarrow> split_from sep acc s = [x] \<Longrightarrow> x = rev acc @ s \<and> \<not> occurs sep s"
proof (induction s arbitrary: acc)
  case Nil
  then show ?case by simp
next
  case (Cons ch cs)
  show ?case
  proof (cases "strip_prefix sep (ch # cs)")
    case None
    with Cons.prems have "split_from sep (ch # acc) cs = [x]"
      by simp
    from Cons.IH[OF Cons.prems(1) this] None show ?thesis
      by simp
  next
    case (Some rest)
    with Cons.prems have "split_from sep [] rest = []"
      by simp
    then show ?thesis
      by (simp add: split_from_nonempty)
  qed
qed

lemma split_from_first_w:
  "\<not> occurs ''_w'' a \<Longrightarrow>
     split_from ''_w'' acc (a @ ''_w'' @ b) = (rev acc @ a) # split_from ''_w'' [] b"
proof (induction a arbitrary: acc)
  case Nil
  then show ?case by simp
next
  case (Cons ch a)
  then have no: "strip_prefix ''_w'' (ch # a) = None" and rest: "\<not> occurs ''_w'' a"
    by auto
  have "strip_prefix ''_w'' (ch # a @ ''_w'' @ b) = None"
    using no by (cases a) (auto split: if_splits)
  then show ?case
    using Cons.IH[OF rest, of "ch # acc"] by simp
qed

lemma split_from_pair_w:
  "split_from ''_w'' acc s = [x, y] \<Longrightarrow>
     \<exists>a. s = a @ ''_w'' @ y \<and> x = rev acc @ a \<and> \<not> occurs ''_w'' a \<and> \<not> occurs ''_w'' y"
proof (induction s arbitrary: acc)
  case Nil
  then show ?case by simp
next
  case (Cons ch cs)
  show ?case
  proof (cases "strip_prefix ''_w'' (ch # cs)")
    case (Some rest)
    with Cons.prems have x: "x = rev acc" and "split_from ''_w'' [] rest = [y]"
      by simp_all
    then have "y = rest" and "\<not> occurs ''_w'' rest"
      using split_from_single[of "''_w''" "[]" rest y] by simp_all
    moreover have "ch # cs = ''_w'' @ rest"
      using Some by (rule strip_prefix_Some)
    ultimately show ?thesis
      using x by (intro exI[of _ "[]"]) simp
  next
    case None
    with Cons.prems have "split_from ''_w'' (ch # acc) cs = [x, y]"
      by simp
    from Cons.IH[OF this] obtain a where a: "cs = a @ ''_w'' @ y" "x = rev (ch # acc) @ a"
      "\<not> occurs ''_w'' a" "\<not> occurs ''_w'' y"
      by blast
    have "strip_prefix ''_w'' ((ch # a) @ (''_w'' @ y)) = None"
      using None a(1) by simp
    then have "strip_prefix ''_w'' (ch # a) = None"
      by (rule strip_prefix_shorter)
    then show ?thesis
      using a by (intro exI[of _ "ch # a"]) simp
  qed
qed

lemma str_split_w_pair:
  "str_split ''_w'' key = [s, w] \<longleftrightarrow>
     key = s @ ''_w'' @ w \<and> \<not> occurs ''_w'' s \<and> \<not> occurs ''_w'' w"
proof
  assume "str_split ''_w'' key = [s, w]"
  then show "key = s @ ''_w'' @ w \<and> \<not> occurs ''_w'' s \<and> \<not> occurs ''_w'' w"
    using split_from_pair_w[of "[]" key s w] by (auto simp: str_split_def)
next
  assume "key = s @ ''_w'' @ w \<and> \<not> occurs ''_w'' s \<and> \<not> occurs ''_w'' w"
  then show "str_split ''_w'' key = [s, w]"
    using split_from_first_w[of s "[]" w] split_from_no_occurrence[of "''_w''" w "[]"]
    by (simp add: str_split_def)
qed

subsection \<open>Decimal numerals\<close>

lemma of_char_digit: "d < 10 \<Longrightarrow> (of_char (char_of (48 + d :: nat)) :: nat) = 48 + d"
  by simp

lemma is_digit_char_of: "d < 10 \<Longrightarrow> is_digit (char_of (48 + d :: nat))"
  by (simp add: is_digit_def)

lemma digit_val_char_of: "d < 10 \<Longrightarrow> digit_val (char_of (48 + d :: nat)) = d"
  by (simp add: digit_val_def)

lemma decimal_digits: "list_all is_digit (decimal n)"
proof (induction n rule: decimal.induct)
  case (1 n)
  then show ?case
    by (subst decimal.simps) (simp add: is_digit_char_of)
qed

lemma decimal_nonempty: "decimal n \<noteq> []"
  by (subst decimal.simps) simp

lemma digits_value_snoc: "digits_value (ds @ [ch]) = 10 * digits_value ds + digit_val ch"
  by (simp add: digits_value_def)

lemma digits_value_decimal: "digits_value (decimal n) = n"
proof (induction n rule: decimal.induct)
  case (1 n)
  show ?case
  proof (cases "n < 10")
    case True
    then show ?thesis
      by (subst decimal.simps) (simp add: digits_value_def digit_val_char_of)
  next
    case False
    with 1 have "digits_value (decimal (n div 10)) = n div 10"
      by simp
    with False show ?thesis
      by (subst decimal.simps) (simp add: digits_value_snoc digit_val_char_of)
  qed
qed

lemma digit_not_space: "is_digit ch \<Longrightarrow> \<not> is_space ch"
  by (auto simp: is_digit_def is_space_def)

lemma digit_not_sign: "is_digit ch \<Longrightarrow> ch \<noteq> CHR ''-'' \<and> ch \<noteq> CHR ''+'' \<and> ch \<noteq> CHR ''_''"
  by (auto simp: is_digit_def)

lemma dropWhile_hd: "xs \<noteq> [] \<Longrightarrow> \<not> P (hd xs) \<Longrightarrow> dropWhile P xs = xs"
  by (cases xs) simp_all

lemma strip_digits: "ds \<noteq> [] \<Longrightarrow> list_all is_digit ds \<Longrightarrow> strip ds = ds"
proof -
  assume ne: "ds \<noteq> []" and all: "list_all is_digit ds"
  then have "is_digit (hd ds)" and "is_digit (last ds)"
    by (simp_all add: list_all_iff)
  then have "\<not> is_space (hd ds)" and "\<not> is_space (hd (rev ds))"
    using ne by (simp_all add: digit_not_space hd_rev)
  then have "dropWhile is_space ds = ds" and "dropWhile is_space (rev ds) = rev ds"
    using ne by (simp_all add: dropWhile_hd)
  then show ?thesis
    by (simp add: strip_def)
qed

lemma int_body_digits: "ds \<noteq> [] \<Longrightarrow> list_all is_digit ds \<Longrightarrow> int_body ds"
  by (induction ds rule: int_body.induct) (auto simp: digit_not_sign)

lemma py_int_digits:
  assumes "ds \<noteq> []" and "list_all is_digit ds" and "length ds \<le> 4300"
  shows "py_int ds = Inr (int (digits_value ds))"
proof -
  have "is_digit (hd ds)"
    using assms(1,2) by (simp add: list_all_iff)
  then have "hd ds \<noteq> CHR ''-''" and "hd ds \<noteq> CHR ''+''"
    by (simp_all add: digit_not_sign)
  moreover have "filter is_digit ds = ds"
    using assms(2) by (simp add: list_all_iff)
  ultimately show ?thesis
    using assms by (simp add: py_int_def strip_digits int_body_digits)
qed

lemma py_int_decimal: "length (decimal n) \<le> 4300 \<Longrightarrow> py_int (decimal n) = Inr (int n)"
  by (simp add: py_int_digits decimal_digits decimal_nonempty digits_value_decimal)

lemma digits_no_w: "list_all is_digit ds \<Longrightarrow> \<not> occurs ''_w'' ds"
  by (induction ds) (auto simp: is_digit_def split: if_splits)

lemma py_int_error: "py_int s = Inl e \<Longrightarrow> e = ValueError"
  by (auto simp: py_int_def Let_def split: if_splits)

subsection \<open>Claim\<close>

text \<open>
  C6, as stated: a key whose suffix is not a positive integer fails. It does not: the
  suffix \<open>0\<close> is accepted, and the key parses to window 0.
\<close>

theorem window_zero_accepted: "parse_signal_key ''AAPL_w0'' = Inr (''AAPL'', 0)"
  by (simp add: parse_signal_key_def str_split_def py_int_def strip_def is_space_def
      is_digit_def digits_value_def digit_val_def)

text \<open>
  C6, amended. A key \<open><SYMBOL>_w<N>\<close>, with \<open>_w\<close> not occurring in the symbol and
  \<open>N\<close> the decimal numeral of a positive integer (of at most 4300 digits), parses to
  the symbol and \<open>N\<close>. A key in which \<open>_w\<close> does not occur fails with \<open>ValueError\<close>.
  In general a key parses exactly when it is \<open>s_w<suffix>\<close> with no further \<open>_w\<close>
  and a suffix that \<open>int\<close> accepts, which zero and negative numbers are; every
  other key fails, always with \<open>ValueError\<close>.
\<close>

theorem parse_signal_key_amended:
  "(\<not> occurs ''_w'' s \<and> 0 < n \<and> length (decimal n) \<le> 4300 \<longrightarrow>
      parse_signal_key (s @ ''_w'' @ decimal n) = Inr (s, int n))
   \<and> (\<not> occurs ''_w'' key \<longrightarrow> parse_signal_key key = Inl ValueError)
   \<and> (parse_signal_key key = Inr (s, w) \<longleftrightarrow>
        (\<exists>suffix. key = s @ ''_w'' @ suffix \<and> \<not> occurs ''_w'' s \<and> \<not> occurs ''_w'' suffix
                  \<and> py_int suffix = Inr w))
   \<and> (parse_signal_key key = Inl e \<longrightarrow> e = ValueError)"
proof (intro conjI impI)
  assume a: "\<not> occurs ''_w'' s \<and> 0 < n \<and> length (decimal n) \<le> 4300"
  then have "str_split ''_w'' (s @ ''_w'' @ decimal n) = [s, decimal n]"
    by (simp add: str_split_w_pair digits_no_w decimal_digits)
  then show "parse_signal_key (s @ ''_w'' @ decimal n) = Inr (s, int n)"
    using a by (simp add: parse_signal_key_def py_int_decimal)
next
  assume "\<not> occurs ''_w'' key"
  then have "str_split ''_w'' key = [key]"
    using split_from_no_occurrence[of "''_w''" key "[]"] by (simp add: str_split_def)
  then show "parse_signal_key key = Inl ValueError"
    by (simp add: parse_signal_key_def)
next
  show "parse_signal_key key = Inr (s, w) \<longleftrightarrow>
        (\<exists>suffix. key = s @ ''_w'' @ suffix \<and> \<not> occurs ''_w'' s \<and> \<not> occurs ''_w'' suffix
                  \<and> py_int suffix = Inr w)"
  proof
    assume p: "parse_signal_key key = Inr (s, w)"
    then obtain s' suffix where sp: "str_split ''_w'' key = [s', suffix]"
      by (auto simp: parse_signal_key_def split: list.splits)
    with p have "s' = s" and "py_int suffix = Inr w"
      by (auto simp: parse_signal_key_def split: sum.splits)
    with sp show "\<exists>suffix. key = s @ ''_w'' @ suffix \<and> \<not> occurs ''_w'' s
        \<and> \<not> occurs ''_w'' suffix \<and> py_int suffix = Inr w"
      using str_split_w_pair[of key s suffix] by blast
  next
    assume "\<exists>suffix. key = s @ ''_w'' @ suffix \<and> \<not> occurs ''_w'' s \<and> \<not> occurs ''_w'' suffix
        \<and> py_int suffix = Inr w"
    then obtain suffix where k: "key = s @ ''_w'' @ suffix \<and> \<not> occurs ''_w'' s
        \<and> \<not> occurs ''_w'' suffix" and i: "py_int suffix = Inr w"
      by blast
    from k have "str_split ''_w'' key = [s, suffix]"
      using str_split_w_pair[of key s suffix] by blast
    with i show "parse_signal_key key = Inr (s, w)"
      by (simp add: parse_signal_key_def)
  qed
next
  assume "parse_signal_key key = Inl e"
  then show "e = ValueError"
    by (auto simp: parse_signal_key_def split: list.splits sum.splits dest: py_int_error)
qed

theorem parse_signal_key_amended_witness:
  "parse_signal_key ''AAPL_w3'' = Inr (''AAPL'', 3)
   \<and> parse_signal_key ''AAPL'' = Inl ValueError
   \<and> parse_signal_key ''AAPL_w-2'' = Inr (''AAPL'', - 2)"
proof -
  have d3: "decimal 3 = ''3''"
    by code_simp
  have h1: "\<not> occurs ''_w'' ''AAPL''"
    by simp
  have h2: "py_int ''-2'' = Inr (- 2)"
    by (simp add: py_int_def strip_def is_space_def is_digit_def digits_value_def digit_val_def)
  have h3: "\<not> occurs ''_w'' ''-2''"
    by simp
  have "\<exists>suffix. ''AAPL_w-2'' = ''AAPL'' @ ''_w'' @ suffix \<and> \<not> occurs ''_w'' ''AAPL''
      \<and> \<not> occurs ''_w'' suffix \<and> py_int suffix = Inr (- 2)"
    using h1 h2 h3 by (intro exI[of _ "''-2''"]) simp
  then show ?thesis
    using parse_signal_key_amended[of "''AAPL''" 3 "''AAPL''" "- 2" ValueError]
      parse_signal_key_amended[of "''AAPL''" 3 "''AAPL_w-2''" "- 2" ValueError] d3 h1
    by simp
qed

section \<open>Properties of signal processing\<close>

subsection \<open>Skipped entries and failing entries\<close>

lemma and_then_simps:
  "and_then (Inl e) f = Inl e" "and_then (Inr v) f = f v"
  by (simp_all add: and_then_def)

lemma process_entries_skip:
  assumes "process_entry lib av target min_c min_r entry = Inr None"
  shows "process_entries lib av target min_c min_r signals (pre @ entry # post) =
         process_entries lib av target min_c min_r signals (pre @ post)"
proof (induction pre arbitrary: signals)
  case Nil
  show ?case using assms by simp
next
  case (Cons x pre)
  show ?case
    by (simp add: Cons.IH split: sum.splits option.splits prod.splits)
qed

lemma process_entries_no_error_prefix:
  assumes "\<forall>x \<in> set pre. \<forall>e. process_entry lib av target min_c min_r x \<noteq> Inl e"
  shows "\<exists>signals'. process_entries lib av target min_c min_r signals (pre @ rest) =
                     process_entries lib av target min_c min_r signals' rest"
  using assms
proof (induction pre arbitrary: signals)
  case Nil
  show ?case by auto
next
  case (Cons x pre)
  then have ih: "\<And>s. \<exists>signals'. process_entries lib av target min_c min_r s (pre @ rest) =
                     process_entries lib av target min_c min_r signals' rest"
    by simp
  from Cons.prems obtain r where r: "process_entry lib av target min_c min_r x = Inr r"
    by (cases "process_entry lib av target min_c min_r x") auto
  show ?case
  proof (cases r)
    case None
    with r ih[of signals] show ?thesis by simp
  next
    case (Some t)
    obtain sy sg sh where "t = (sy, sg, sh)"
      by (cases t) auto
    with Some r ih[of "add_signal signals sy (sg, sh)"] show ?thesis by simp
  qed
qed

lemma process_entries_error:
  assumes "entry \<in> set entries"
    and "process_entry lib av target min_c min_r entry = Inl e"
  shows "\<exists>e'. process_entries lib av target min_c min_r signals entries = Inl e'"
  using assms(1)
proof (induction entries arbitrary: signals)
  case Nil
  then show ?case by simp
next
  case (Cons x entries)
  show ?case
  proof (cases "process_entry lib av target min_c min_r x")
    case (Inl e')
    then show ?thesis by simp
  next
    case (Inr r)
    then have "x \<noteq> entry"
      using assms(2) by auto
    with Cons.prems have "entry \<in> set entries"
      by simp
    from Cons.IH[OF this] Inr show ?thesis
      by (cases r) (auto split: prod.splits)
  qed
qed

lemma number_at_less_than:
  assumes "number_at sd outer inner = Some x"
  shows "\<exists>v. get_path sd [outer, inner] = Inr v \<and> less_than v t = Inr (x < t)"
proof (cases sd)
  case sd: (JObj kvs)
  show ?thesis
  proof (cases "map_of kvs outer")
    case None
    with assms sd show ?thesis
      by (simp add: number_at_def)
  next
    case outer: (Some v)
    show ?thesis
    proof (cases v)
      case v: (JObj sub)
      show ?thesis
      proof (cases "map_of sub inner")
        case None
        with assms sd outer v show ?thesis
          by (simp add: number_at_def)
      next
        case inner: (Some u)
        have path: "get_path sd [outer, inner] = Inr u"
          using sd outer v inner by (simp add: getitem_def and_then_def)
        have "less_than u t = Inr (x < t)"
          using assms sd outer v inner by (cases u) (simp_all add: number_at_def less_than_def)
        with path show ?thesis
          by blast
      qed
    qed (use assms sd outer in \<open>simp_all add: number_at_def\<close>)
  qed
qed (use assms in \<open>simp_all add: number_at_def\<close>)

lemma filtered_entry_skipped:
  assumes "parse_signal_key key = Inr (sy, w)"
    and "(\<exists>syms. target = Some syms \<and> syms \<noteq> [] \<and> sy \<notin> set syms)
       \<or> (\<exists>c. number_at sd ''signal'' ''confidence'' = Some c \<and> c < min_c)
       \<or> (\<exists>c r. number_at sd ''signal'' ''confidence'' = Some c
             \<and> number_at sd ''metrics'' ''risk_reward_ratio'' = Some r \<and> r < min_r)"
  shows "process_entry lib av target min_c min_r (key, sd) = Inr None"
proof -
  have "filtered_out target min_c min_r sy sd = Inr True"
  proof (cases "\<exists>syms. target = Some syms \<and> syms \<noteq> [] \<and> sy \<notin> set syms")
    case True
    then show ?thesis
      by (auto simp: filtered_out_def)
  next
    case False
    then have nolist: "\<not> (case target of None \<Rightarrow> False | Some syms \<Rightarrow> syms \<noteq> [] \<and> sy \<notin> set syms)"
      by (auto split: option.splits)
    from False assms(2) obtain c where c: "number_at sd ''signal'' ''confidence'' = Some c"
      and rest: "c < min_c \<or> (\<exists>r. number_at sd ''metrics'' ''risk_reward_ratio'' = Some r \<and> r < min_r)"
      by auto
    from number_at_less_than[OF c, of min_c] obtain v where
      v: "get_path sd [''signal'', ''confidence''] = Inr v" "less_than v min_c = Inr (c < min_c)"
      by blast
    show ?thesis
    proof (cases "c < min_c")
      case True
      with v nolist show ?thesis
        by (simp add: filtered_out_def and_then_simps)
    next
      case False
      with rest obtain r where r: "number_at sd ''metrics'' ''risk_reward_ratio'' = Some r"
        and low: "r < min_r"
        by auto
      from number_at_less_than[OF r, of min_r] obtain u where
        "get_path sd [''metrics'', ''risk_reward_ratio''] = Inr u" "less_than u min_r = Inr (r < min_r)"
        by blast
      with v nolist False low show ?thesis
        by (simp add: filtered_out_def and_then_simps)
    qed
  qed
  then show ?thesis
    using assms(1) by (simp add: process_entry_def and_then_simps)
qed

text \<open>An allow-list that is empty is read like no allow-list.\<close>

lemma process_entry_empty_list:
  "process_entry lib av (Some []) min_c min_r entry = process_entry lib av None min_c min_r entry"
  by (simp add: process_entry_def filtered_out_def)

lemma process_entries_empty_list:
  "process_entries lib av (Some []) min_c min_r signals entries =
   process_entries lib av None min_c min_r signals entries"
  by (induction entries arbitrary: signals)
    (simp_all add: process_entry_empty_list split: sum.splits option.splits prod.splits)

lemma process_trading_signals_empty_list:
  "process_trading_signals lib loaded av (Some []) min_c min_r =
   process_trading_signals lib loaded av None min_c min_r"
  by (simp add: process_trading_signals_def process_entries_empty_list
      split: sum.splits json.splits)

lemma process_trading_signals_entries:
  "process_trading_signals lib (Inr (JObj entries)) av target min_c min_r =
     (let outcome = process_entries lib av target min_c min_r [] entries
      in (outcome, case outcome of Inl e \<Rightarrow> (if caught e then [e] else []) | Inr signals \<Rightarrow> []))"
  by (simp add: process_trading_signals_def)

subsection \<open>At the thresholds\<close>

text \<open>
  The comparisons are strict: an entry whose confidence and risk/reward ratio equal the
  minima is kept.
\<close>

lemma threshold_values_pass:
  "process_entry sample_lib 10000 None (1 / 2) (3 / 2) (''AAPL_w1'', sample_signal (1 / 2) (3 / 2)) =
     Inr (Some (''AAPL'', sample_trading_signal ''AAPL'' 1 (1 / 2) (3 / 2), 10))"
  by code_simp

subsection \<open>Claims\<close>

text \<open>
  C3, as stated: an entry whose symbol is not in a given allow-list, or whose confidence
  or risk/reward ratio is below its threshold, is absent from the output and raises no
  error. It fails in two ways. With the empty allow-list given, the entry for \<open>MSFT\<close>
  is not in the list and yet is in the output. And an entry whose risk/reward ratio 1
  is below the threshold, but which has no \<open>signal\<close> object, raises \<open>KeyError\<close>.
\<close>

theorem filter_claim_fails:
  "''MSFT'' \<notin> set ([] :: string list)
   \<and> process_trading_signals sample_lib (Inr (JObj [(''MSFT_w1'', sample_signal (4 / 5) 2)]))
        10000 (Some []) (1 / 2) (3 / 2) =
      (Inr [(''MSFT'', [(sample_trading_signal ''MSFT'' 1 (4 / 5) 2, 10)])], [])
   \<and> process_trading_signals sample_lib
        (Inr (JObj [(''MSFT_w1'', JObj [(''metrics'', JObj [(''risk_reward_ratio'', JInt 1)])])]))
        10000 None (1 / 2) (3 / 2) = (Inl (KeyError ''signal''), [KeyError ''signal''])"
  by code_simp

text \<open>
  C3, amended: an entry whose key parses and which the filter rejects (a non-empty
  allow-list lacks its symbol; or its confidence is a number below the minimum; or its
  confidence is a number and its risk/reward ratio is a number below the minimum) raises
  no error, whatever else it holds, and adds nothing to the output: the feed gives the
  same result with the entry as without it. An empty allow-list filters nothing: it
  gives the result that no allow-list gives.
\<close>

theorem filtered_entry_omitted:
  assumes "parse_signal_key key = Inr (sy, w)"
    and "(\<exists>syms. target = Some syms \<and> syms \<noteq> [] \<and> sy \<notin> set syms)
       \<or> (\<exists>c. number_at sd ''signal'' ''confidence'' = Some c \<and> c < min_c)
       \<or> (\<exists>c r. number_at sd ''signal'' ''confidence'' = Some c
             \<and> number_at sd ''metrics'' ''risk_reward_ratio'' = Some r \<and> r < min_r)"
  shows "process_entry lib av target min_c min_r (key, sd) = Inr None
       \<and> process_trading_signals lib (Inr (JObj (pre @ (key, sd) # post))) av target min_c min_r =
         process_trading_signals lib (Inr (JObj (pre @ post))) av target min_c min_r
       \<and> process_trading_signals lib loaded av (Some []) min_c min_r =
         process_trading_signals lib loaded av None min_c min_r"
proof -
  have skip: "process_entry lib av target min_c min_r (key, sd) = Inr None"
    using assms by (rule filtered_entry_skipped)
  then show ?thesis
    by (simp add: process_trading_signals_entries process_entries_skip
        process_trading_signals_empty_list)
qed

theorem filtered_entry_omitted_witness:
  "process_trading_signals sample_lib
     (Inr (JObj [(''AAPL_w1'', sample_signal (4 / 5) 2),
                 (''MSFT_w1'', sample_signal (1 / 5) 2),
                 (''TSLA_w2'', sample_signal (4 / 5) 1),
                 (''NVDA_w1'', JObj [])]))
     10000 (Some [''AAPL'', ''MSFT'', ''TSLA'']) (1 / 2) (3 / 2) =
   (Inr [(''AAPL'', [(sample_trading_signal ''AAPL'' 1 (4 / 5) 2, 10)])], [])"
proof -
  let ?aapl = "(''AAPL_w1'', sample_signal (4 / 5) 2)"
  let ?msft = "(''MSFT_w1'', sample_signal (1 / 5) 2)"
  let ?tsla = "(''TSLA_w2'', sample_signal (4 / 5) 1)"
  let ?nvda = "(''NVDA_w1'', JObj [])"
  let ?target = "Some [''AAPL'', ''MSFT'', ''TSLA'']"
  have k1: "parse_signal_key ''MSFT_w1'' = Inr (''MSFT'', 1)"
    by code_simp
  have k2: "parse_signal_key ''TSLA_w2'' = Inr (''TSLA'', 2)"
    by code_simp
  have k3: "parse_signal_key ''NVDA_w1'' = Inr (''NVDA'', 1)"
    by code_simp
  have c1: "number_at (sample_signal (1 / 5) 2) ''signal'' ''confidence'' = Some (1 / 5)"
    by (simp add: number_at_def sample_signal_def)
  have c2: "number_at (sample_signal (4 / 5) 1) ''signal'' ''confidence'' = Some (4 / 5)"
    by (simp add: number_at_def sample_signal_def)
  have r2: "number_at (sample_signal (4 / 5) 1) ''metrics'' ''risk_reward_ratio'' = Some 1"
    by (simp add: number_at_def sample_signal_def)
  have f1: "(\<exists>syms. ?target = Some syms \<and> syms \<noteq> [] \<and> ''MSFT'' \<notin> set syms)
       \<or> (\<exists>c. number_at (sample_signal (1 / 5) 2) ''signal'' ''confidence'' = Some c \<and> c < 1 / 2)
       \<or> (\<exists>c r. number_at (sample_signal (1 / 5) 2) ''signal'' ''confidence'' = Some c
             \<and> number_at (sample_signal (1 / 5) 2) ''metrics'' ''risk_reward_ratio'' = Some r
             \<and> r < 3 / 2)"
    using c1 by (intro disjI2 disjI1 exI[of _ "1 / 5"]) simp
  have f2: "(\<exists>syms. ?target = Some syms \<and> syms \<noteq> [] \<and> ''TSLA'' \<notin> set syms)
       \<or> (\<exists>c. number_at (sample_signal (4 / 5) 1) ''signal'' ''confidence'' = Some c \<and> c < 1 / 2)
       \<or> (\<exists>c r. number_at (sample_signal (4 / 5) 1) ''signal'' ''confidence'' = Some c
             \<and> number_at (sample_signal (4 / 5) 1) ''metrics'' ''risk_reward_ratio'' = Some r
             \<and> r < 3 / 2)"
    using c2 r2 by (intro disjI2 exI[of _ "4 / 5"] exI[of _ 1]) simp
  have f3: "(\<exists>syms. ?target = Some syms \<and> syms \<noteq> [] \<and> ''NVDA'' \<notin> set syms)
       \<or> (\<exists>c. number_at (JObj []) ''signal'' ''confidence'' = Some c \<and> c < 1 / 2)
       \<or> (\<exists>c r. number_at (JObj []) ''signal'' ''confidence'' = Some c
             \<and> number_at (JObj []) ''metrics'' ''risk_reward_ratio'' = Some r
             \<and> r < 3 / 2)"
    by (intro disjI1 exI[of _ "[''AAPL'', ''MSFT'', ''TSLA'']"]) simp
  have s1: "process_trading_signals sample_lib (Inr (JObj [?aapl, ?msft, ?tsla, ?nvda]))
              10000 ?target (1 / 2) (3 / 2) =
            process_trading_signals sample_lib (Inr (JObj [?aapl, ?tsla, ?nvda]))
              10000 ?target (1 / 2) (3 / 2)"
    using filtered_entry_omitted[OF k1 f1, of sample_lib 10000 "[?aapl]" "[?tsla, ?nvda]"]
    by simp
  have s2: "process_trading_signals sample_lib (Inr (JObj [?aapl, ?tsla, ?nvda]))
              10000 ?target (1 / 2) (3 / 2) =
            process_trading_signals sample_lib (Inr (JObj [?aapl, ?nvda]))
              10000 ?target (1 / 2) (3 / 2)"
    using filtered_entry_omitted[OF k2 f2, of sample_lib 10000 "[?aapl]" "[?nvda]"]
    by simp
  have s3: "process_trading_signals sample_lib (Inr (JObj [?aapl, ?nvda]))
              10000 ?target (1 / 2) (3 / 2) =
            process_trading_signals sample_lib (Inr (JObj [?aapl]))
              10000 ?target (1 / 2) (3 / 2)"
    using filtered_entry_omitted[OF k3 f3, of sample_lib 10000 "[?aapl]" "[]"]
    by simp
  have r: "process_trading_signals sample_lib (Inr (JObj [?aapl]))
             10000 ?target (1 / 2) (3 / 2) =
           (Inr [(''AAPL'', [(sample_trading_signal ''AAPL'' 1 (4 / 5) 2, 10)])], [])"
    by code_simp
  show ?thesis
    using s1 s2 s3 r by simp
qed

text \<open>
  C4, as stated: an error in one entry leaves the other entries in the output. It
  fails: the feed holds a well-formed entry for \<open>AAPL\<close> and an entry with the key
  \<open>BAD\<close>; the call raises \<open>ValueError\<close> and returns no mapping.
\<close>

theorem malformed_entry_aborts:
  "process_trading_signals sample_lib
     (Inr (JObj [(''AAPL_w1'', sample_signal (4 / 5) 2), (''BAD'', JNull)]))
     10000 None (1 / 2) (3 / 2) = (Inl ValueError, [ValueError])"
  by code_simp

text \<open>
  C4, amended: an error in one entry is not kept to that entry. When any entry of the
  feed raises, the call raises and returns no mapping, whatever well-formed entries
  the feed holds; the error is that of the first entry that raises. It is logged
  before it is raised again when it is a \<open>KeyError\<close> or a \<open>ValueError\<close> (a
  \<open>JSONDecodeError\<close> is one), and it is raised unlogged otherwise.
\<close>

theorem entry_error_aborts_feed:
  assumes "entry \<in> set entries"
    and "process_entry lib av target min_c min_r entry = Inl e"
  shows "(\<exists>e'. process_trading_signals lib (Inr (JObj entries)) av target min_c min_r =
               (Inl e', if caught e' then [e'] else []))
       \<and> (\<forall>pre post. entries = pre @ entry # post
             \<and> (\<forall>x \<in> set pre. \<forall>e'. process_entry lib av target min_c min_r x \<noteq> Inl e')
           \<longrightarrow> process_trading_signals lib (Inr (JObj entries)) av target min_c min_r =
                 (Inl e, if caught e then [e] else []))"
proof (intro conjI allI impI)
  show "\<exists>e'. process_trading_signals lib (Inr (JObj entries)) av target min_c min_r =
               (Inl e', if caught e' then [e'] else [])"
  proof -
    from process_entries_error[OF assms, of "[]"] obtain e' where
      "process_entries lib av target min_c min_r [] entries = Inl e'"
      by blast
    then show ?thesis
      by (intro exI[of _ e']) (simp add: process_trading_signals_entries)
  qed
next
  fix pre post
  assume a: "entries = pre @ entry # post
      \<and> (\<forall>x \<in> set pre. \<forall>e'. process_entry lib av target min_c min_r x \<noteq> Inl e')"
  then obtain signals' where
    "process_entries lib av target min_c min_r [] (pre @ entry # post) =
     process_entries lib av target min_c min_r signals' (entry # post)"
    using process_entries_no_error_prefix[of pre lib av target min_c min_r "[]" "entry # post"]
    by blast
  then have "process_entries lib av target min_c min_r [] entries = Inl e"
    using a assms(2) by simp
  then show "process_trading_signals lib (Inr (JObj entries)) av target min_c min_r =
      (Inl e, if caught e then [e] else [])"
    by (simp add: process_trading_signals_entries)
qed

theorem entry_error_aborts_feed_witness:
  "process_trading_signals sample_lib
     (Inr (JObj [(''AAPL_w1'', sample_signal (4 / 5) 2),
                 (''MSFT_w1'', JObj [(''signal'', JObj [(''confidence'', JInt 1)])])]))
     10000 None (1 / 2) (3 / 2) = (Inl (KeyError ''metrics''), [KeyError ''metrics''])
   \<and> process_trading_signals sample_lib
     (Inr (JObj [(''AAPL_w1'', sample_signal (4 / 5) 2), (''MSFT_w1'', JNull)]))
     10000 None (1 / 2) (3 / 2) = (Inl TypeError, [])"
proof -
  let ?good = "(''AAPL_w1'', sample_signal (4 / 5) 2)"
  let ?bad = "(''MSFT_w1'', JObj [(''signal'', JObj [(''confidence'', JInt 1)])])"
  let ?null = "(''MSFT_w1'', JNull)"
  have m: "?bad \<in> set [?good, ?bad]"
    by simp
  have m': "?null \<in> set [?good, ?null]"
    by simp
  have b: "process_entry sample_lib 10000 None (1 / 2) (3 / 2) ?bad = Inl (KeyError ''metrics'')"
    by code_simp
  have b': "process_entry sample_lib 10000 None (1 / 2) (3 / 2) ?null = Inl TypeError"
    by code_simp
  have g: "process_entry sample_lib 10000 None (1 / 2) (3 / 2) ?good =
      Inr (Some (''AAPL'', sample_trading_signal ''AAPL'' 1 (4 / 5) 2, 10))"
    by code_simp
  have p: "[?good, ?bad] = [?good] @ ?bad # []
      \<and> (\<forall>x \<in> set [?good]. \<forall>e'. process_entry sample_lib 10000 None (1 / 2) (3 / 2) x \<noteq> Inl e')"
    using g by simp
  have p': "[?good, ?null] = [?good] @ ?null # []
      \<and> (\<forall>x \<in> set [?good]. \<forall>e'. process_entry sample_lib 10000 None (1 / 2) (3 / 2) x \<noteq> Inl e')"
    using g by simp
  have "process_trading_signals sample_lib (Inr (JObj [?good, ?bad])) 10000 None (1 / 2) (3 / 2) =
      (Inl (KeyError ''metrics''), if caught (KeyError ''metrics'') then [KeyError ''metrics''] else [])"
    using entry_error_aborts_feed[OF m b] p by blast
  moreover have "process_trading_signals sample_lib (Inr (JObj [?good, ?null])) 10000 None (1 / 2) (3 / 2) =
      (Inl TypeError, if caught TypeError then [TypeError] else [])"
    using entry_error_aborts_feed[OF m' b'] p' by blast
  ultimately show ?thesis
    by (simp add: caught_def)
qed

section \<open>Properties of decimal arithmetic and the share quantity\<close>

subsection \<open>Digit counts and adjusted exponents\<close>

lemma ndigits_bounds_int:
  "0 < n \<Longrightarrow> 1 \<le> ndigits n \<and> 10 ^ nat (ndigits n - 1) \<le> n \<and> n < 10 ^ nat (ndigits n)"
proof (induction n rule: ndigits.induct)
  case (1 n)
  show ?case
  proof (cases "n < 10")
    case True
    then have "ndigits n = 1"
      by (simp add: ndigits.simps)
    with True "1.prems" show ?thesis
      by simp
  next
    case False
    define m where "m = n div 10"
    define k where "k = ndigits m"
    have mpos: "0 < m"
      using False by (simp add: m_def)
    have ih: "1 \<le> k" "10 ^ nat (k - 1) \<le> m" "m < 10 ^ nat k"
      using "1.IH"[OF False] mpos by (simp_all add: m_def k_def)
    have nd: "ndigits n = 1 + k"
      using False by (subst ndigits.simps) (simp add: m_def k_def)
    have e1: "(10 :: int) ^ nat k = 10 * 10 ^ nat (k - 1)"
    proof -
      have "nat k = Suc (nat (k - 1))"
        using ih(1) by simp
      then show ?thesis by simp
    qed
    have e2: "(10 :: int) ^ nat (1 + k) = 10 * 10 ^ nat k"
    proof -
      have "nat (1 + k) = Suc (nat k)"
        using ih(1) by simp
      then show ?thesis by simp
    qed
    have "10 * m \<le> n" and "n < 10 * m + 10"
      by (simp_all add: m_def)
    moreover have "m + 1 \<le> 10 ^ nat k"
      using ih(3) by simp
    ultimately have "10 ^ nat k \<le> n" and "n < 10 ^ nat (1 + k)"
      using ih(2) unfolding e1 e2 by linarith+
    moreover have "ndigits n - 1 = k"
      by (simp add: nd)
    ultimately show ?thesis
      using ih(1) by (simp add: nd)
  qed
qed

lemma power_int_nat: "0 \<le> k \<Longrightarrow> (10 :: rat) powi k = of_int (10 ^ nat k)"
  by (simp add: power_int_def)

lemma ndigits_bounds:
  assumes "0 < n"
  shows "(10 :: rat) powi (ndigits n - 1) \<le> of_int n" and "of_int n < (10 :: rat) powi (ndigits n)"
proof -
  from ndigits_bounds_int[OF assms]
  have k: "1 \<le> ndigits n" and lo: "10 ^ nat (ndigits n - 1) \<le> n" and hi: "n < 10 ^ nat (ndigits n)"
    by simp_all
  have "(of_int (10 ^ nat (ndigits n - 1)) :: rat) \<le> of_int n"
    using lo by (simp only: of_int_le_iff)
  then show "(10 :: rat) powi (ndigits n - 1) \<le> of_int n"
    using k by (simp add: power_int_nat)
  have "(of_int n :: rat) < of_int (10 ^ nat (ndigits n))"
    using hi by (simp only: of_int_less_iff)
  then show "of_int n < (10 :: rat) powi (ndigits n)"
    using k by (simp add: power_int_nat)
qed

lemma dec_adjusted_bounds:
  assumes "x \<noteq> 0"
  shows "10 powi (dec_adjusted x) \<le> \<bar>x\<bar>" and "\<bar>x\<bar> < 10 powi (dec_adjusted x + 1)"
proof -
  obtain n d where q: "quotient_of \<bar>x\<bar> = (n, d)"
    by (cases "quotient_of \<bar>x\<bar>") auto
  then have dpos: "0 < d" and xeq: "\<bar>x\<bar> = of_int n / of_int d"
    by (auto dest: quotient_of_denom_pos quotient_of_div)
  have npos: "0 < n"
  proof -
    have "0 < \<bar>x\<bar>" using assms by simp
    then have "0 < (of_int n :: rat) / of_int d" by (simp add: xeq)
    then show ?thesis using dpos by (simp add: zero_less_divide_iff)
  qed
  define k where "k = ndigits n - ndigits d"
  have nlo: "(10 :: rat) powi (ndigits n - 1) \<le> of_int n" and nhi: "of_int n < (10 :: rat) powi (ndigits n)"
    using ndigits_bounds[OF npos] by simp_all
  have dlo: "(10 :: rat) powi (ndigits d - 1) \<le> of_int d" and dhi: "of_int d < (10 :: rat) powi (ndigits d)"
    using ndigits_bounds[OF dpos] by simp_all
  have dpos': "(0 :: rat) < of_int d" using dpos by simp
  have upper: "\<bar>x\<bar> < 10 powi (k + 1)"
  proof -
    have "(of_int n :: rat) < 10 powi (ndigits n)" by (rule nhi)
    also have "\<dots> = 10 powi (k + 1) * 10 powi (ndigits d - 1)"
      by (simp add: k_def power_int_add[symmetric])
    also have "\<dots> \<le> 10 powi (k + 1) * of_int d"
      using dlo by (simp add: mult_left_mono)
    finally show ?thesis
      using dpos' by (simp add: xeq pos_divide_less_eq)
  qed
  have lower: "10 powi (k - 1) \<le> \<bar>x\<bar>"
  proof -
    have "(10 :: rat) powi (k - 1) * of_int d \<le> 10 powi (k - 1) * 10 powi (ndigits d)"
      using dhi by (simp add: mult_left_mono)
    also have "\<dots> = 10 powi (ndigits n - 1)"
      by (simp add: k_def power_int_add[symmetric])
    also have "\<dots> \<le> of_int n" by (rule nlo)
    finally show ?thesis
      using dpos' by (simp add: xeq pos_le_divide_eq)
  qed
  show "10 powi (dec_adjusted x) \<le> \<bar>x\<bar>"
    using lower by (simp add: dec_adjusted_def q k_def Let_def)
  show "\<bar>x\<bar> < 10 powi (dec_adjusted x + 1)"
    using upper by (auto simp: dec_adjusted_def q k_def Let_def not_le)
qed

lemma dec_adjusted_le:
  assumes "x \<noteq> 0" and "\<bar>x\<bar> \<le> 10 powi k"
  shows "dec_adjusted x \<le> k"
proof -
  have "(10 :: rat) powi (dec_adjusted x) \<le> 10 powi k"
    using dec_adjusted_bounds(1)[OF assms(1)] assms(2) by simp
  then show ?thesis
    by (metis linorder_not_less one_less_numeral_iff power_int_strict_increasing semiring_norm(76))
qed

lemma dec_adjusted_less:
  assumes "x \<noteq> 0" and "\<bar>x\<bar> < 10 powi k"
  shows "dec_adjusted x < k"
proof -
  have "(10 :: rat) powi (dec_adjusted x) < 10 powi k"
    using dec_adjusted_bounds(1)[OF assms(1)] assms(2) by simp
  then show ?thesis
    by (metis linorder_not_less one_le_numeral power_int_increasing)
qed

subsection \<open>Rounding\<close>

lemma round_half_even_ge: "of_int m \<le> y \<Longrightarrow> m \<le> round_half_even y"
proof -
  assume "of_int m \<le> y"
  then have "m \<le> \<lfloor>y\<rfloor>"
    by (simp add: le_floor_iff)
  then show ?thesis
    by (simp add: round_half_even_def Let_def)
qed

lemma round_half_even_le: "y \<le> of_int m \<Longrightarrow> round_half_even y \<le> m"
proof (cases "y = of_int m")
  case True
  then show ?thesis
    by (simp add: round_half_even_def Let_def)
next
  case False
  assume "y \<le> of_int m"
  with False have "y < of_int m"
    by simp
  then have "\<lfloor>y\<rfloor> < m"
    by (simp add: floor_less_iff)
  then show ?thesis
    by (simp add: round_half_even_def Let_def)
qed

lemma round_half_even_nonneg: "0 \<le> y \<Longrightarrow> 0 \<le> round_half_even y"
  using round_half_even_ge[of 0 y] by simp

lemma dec_fix_nonneg:
  assumes "0 \<le> x" and "dec_fix x = Inr y"
  shows "0 \<le> y"
proof (cases "x = 0")
  case True
  with assms(2) show ?thesis
    by (simp add: dec_fix_def)
next
  case False
  define q where "q = max (dec_adjusted x - 27) etiny"
  have "0 \<le> \<bar>x\<bar> / 10 powi q"
    by (simp add: zero_le_divide_iff)
  then have "0 \<le> round_half_even (\<bar>x\<bar> / 10 powi q)"
    by (rule round_half_even_nonneg)
  then have "0 \<le> sgn x * of_int (round_half_even (\<bar>x\<bar> / 10 powi q)) * 10 powi q"
    using assms(1) False by (simp add: sgn_if)
  then show ?thesis
    using assms(2) False by (auto simp: dec_fix_def Let_def q_def split: if_splits)
qed

text \<open>
  Below \<open>10 ^ 28\<close> the integers are among the numbers the context represents, so
  rounding does not cross one: the fitted value stays between the floor of the exact
  value and the next integer.
\<close>

lemma dec_fix_bracket:
  assumes "0 \<le> x" and "x < 10 ^ 28"
  shows "\<exists>y. dec_fix x = Inr y \<and> of_int \<lfloor>x\<rfloor> \<le> y \<and> y \<le> of_int \<lfloor>x\<rfloor> + 1"
proof (cases "x = 0")
  case True
  then show ?thesis
    by (simp add: dec_fix_def)
next
  case False
  with assms(1) have xpos: "0 < x" by simp
  define q where "q = max (dec_adjusted x - 27) etiny"
  define N :: int where "N = 10 ^ nat (- q)"
  define c where "c = round_half_even (\<bar>x\<bar> / 10 powi q)"
  define y where "y = sgn x * of_int c * 10 powi q"
  have "\<bar>x\<bar> < 10 powi 28"
    using assms by simp
  then have "dec_adjusted x < 28"
    using dec_adjusted_less[OF False] by blast
  then have qle: "q \<le> 0"
    by (simp add: q_def etiny_def emin_def)
  have Npos: "0 < N"
    by (simp add: N_def)
  have pw: "(10 :: rat) powi q = 1 / of_int N"
    using qle by (simp add: power_int_def N_def field_simps)
  have cdef: "c = round_half_even (x * of_int N)"
    using xpos by (simp add: c_def pw)
  have ydef: "y = of_int c / of_int N"
    using xpos by (simp add: y_def pw)
  have "of_int (\<lfloor>x\<rfloor> * N) \<le> x * of_int N"
    using Npos by (simp add: mult_right_mono)
  then have lo: "\<lfloor>x\<rfloor> * N \<le> c"
    unfolding cdef by (rule round_half_even_ge)
  have "x \<le> of_int (\<lfloor>x\<rfloor> + 1)"
    by (metis floor_less_iff less_eq_rat_def less_add_one of_int_less_iff order_less_le_trans
        le_floor_iff linorder_not_le)
  then have "x * of_int N \<le> of_int ((\<lfloor>x\<rfloor> + 1) * N)"
    using Npos by (simp add: mult_right_mono del: of_int_add)
  then have hi: "c \<le> (\<lfloor>x\<rfloor> + 1) * N"
    unfolding cdef by (rule round_half_even_le)
  have Nrat: "(0 :: rat) < of_int N"
    using Npos by simp
  have ylo: "of_int \<lfloor>x\<rfloor> \<le> y"
  proof -
    have "(of_int (\<lfloor>x\<rfloor> * N) :: rat) \<le> of_int c"
      using lo by (simp only: of_int_le_iff)
    then show ?thesis
      using Nrat by (simp add: ydef pos_le_divide_eq)
  qed
  have yhi: "y \<le> of_int \<lfloor>x\<rfloor> + 1"
  proof -
    have "(of_int c :: rat) \<le> of_int ((\<lfloor>x\<rfloor> + 1) * N)"
      using hi by (simp only: of_int_le_iff)
    then show ?thesis
      using Nrat by (simp add: ydef pos_divide_le_eq)
  qed
  have "\<lfloor>x\<rfloor> < 10 ^ 28"
    using assms(2) by (simp add: floor_less_iff)
  then have "\<lfloor>x\<rfloor> + 1 \<le> 10 ^ 28"
    by simp
  then have "(of_int (\<lfloor>x\<rfloor> + 1) :: rat) \<le> of_int (10 ^ 28)"
    by (simp only: of_int_le_iff)
  then have "of_int \<lfloor>x\<rfloor> + 1 \<le> (10 :: rat) ^ 28"
    by (simp only: of_int_add of_int_1 of_int_power of_int_numeral)
  with yhi have "y \<le> (10 :: rat) ^ 28"
    by (rule order_trans)
  moreover have "(10 :: rat) powi 28 = 10 ^ 28"
    by simp
  ultimately have ybound: "y \<le> 10 powi 28"
    by (simp only:)
  have ynn: "0 \<le> y"
    using ylo xpos by (smt (verit) of_int_0_le_iff zero_le_floor less_eq_rat_def order_trans)
  have no_overflow: "\<not> (y \<noteq> 0 \<and> emax < dec_adjusted y)"
  proof
    assume a: "y \<noteq> 0 \<and> emax < dec_adjusted y"
    then have "dec_adjusted y \<le> 28"
      using dec_adjusted_le[of y 28] ybound ynn by simp
    with a show False by (simp add: emax_def)
  qed
  have "dec_fix x = Inr y"
    using False no_overflow by (simp add: dec_fix_def Let_def q_def[symmetric] c_def y_def)
  with ylo yhi show ?thesis
    by blast
qed

subsection \<open>The rounding error\<close>

lemma round_half_even_error: "\<bar>of_int (round_half_even y) - y\<bar> \<le> 1 / 2"
proof -
  define r where "r = y - of_int \<lfloor>y\<rfloor>"
  have r: "0 \<le> r" "r < 1"
    unfolding r_def by linarith+
  have "of_int (round_half_even y) - y =
      (if r < 1 / 2 then - r else if 1 / 2 < r then 1 - r
       else if even \<lfloor>y\<rfloor> then - r else 1 - r)"
    by (simp add: round_half_even_def Let_def r_def)
  then show ?thesis
    using r by (auto simp: abs_if split: if_splits)
qed

lemma dec_adjusted_ge:
  assumes "x \<noteq> 0" and "10 powi k \<le> \<bar>x\<bar>"
  shows "k \<le> dec_adjusted x"
proof -
  have "(10 :: rat) powi k < 10 powi (dec_adjusted x + 1)"
    using dec_adjusted_bounds(2)[OF assms(1)] assms(2) by simp
  then have "k < dec_adjusted x + 1"
    by (metis linorder_not_less one_le_numeral power_int_increasing)
  then show ?thesis
    by simp
qed

text \<open>The unit in which a result is rounded.\<close>

lemma quantum_general:
  assumes "x \<noteq> 0"
  shows "10 powi (max (dec_adjusted x - 27) etiny) \<le> \<bar>x\<bar> / 10 ^ 27 + 10 powi etiny"
proof (cases "etiny \<le> dec_adjusted x - 27")
  case True
  have "(10 :: rat) powi (dec_adjusted x - 27) = 10 powi (dec_adjusted x) / 10 powi 27"
    by (simp add: power_int_diff)
  also have "\<dots> \<le> \<bar>x\<bar> / 10 powi 27"
    using dec_adjusted_bounds(1)[OF assms] by (simp add: divide_right_mono)
  finally have "(10 :: rat) powi (dec_adjusted x - 27) \<le> \<bar>x\<bar> / 10 ^ 27"
    by simp
  moreover have "(0 :: rat) \<le> 10 powi etiny"
    by (simp add: zero_less_power_int less_imp_le)
  moreover have "max (dec_adjusted x - 27) etiny = dec_adjusted x - 27"
    using True by simp
  ultimately show ?thesis
    by (simp only:)
next
  case False
  then have "max (dec_adjusted x - 27) etiny = etiny"
    by simp
  then show ?thesis
    by simp
qed

lemma quantum_normal:
  assumes "x \<noteq> 0" and "10 powi emin \<le> \<bar>x\<bar>"
  shows "10 powi (max (dec_adjusted x - 27) etiny) \<le> \<bar>x\<bar> / 10 ^ 27"
proof -
  have "emin \<le> dec_adjusted x"
    using assms by (rule dec_adjusted_ge)
  then have "max (dec_adjusted x - 27) etiny = dec_adjusted x - 27"
    by (simp add: etiny_def)
  moreover have "(10 :: rat) powi (dec_adjusted x - 27) = 10 powi (dec_adjusted x) / 10 powi 27"
    by (simp add: power_int_diff)
  moreover have "(10 :: rat) powi (dec_adjusted x) / 10 powi 27 \<le> \<bar>x\<bar> / 10 powi 27"
    using dec_adjusted_bounds(1)[OF assms(1)] by (simp add: divide_right_mono)
  ultimately show ?thesis
    by simp
qed

lemma dec_fix_error:
  assumes "dec_fix x = Inr y" and "x \<noteq> 0"
  shows "\<bar>y - x\<bar> \<le> 10 powi (max (dec_adjusted x - 27) etiny) / 2"
proof -
  define q where "q = max (dec_adjusted x - 27) etiny"
  define u :: rat where "u = 10 powi q"
  define c where "c = round_half_even (\<bar>x\<bar> / u)"
  have upos: "0 < u"
    by (simp add: u_def zero_less_power_int)
  have y: "y = sgn x * of_int c * u"
    using assms by (auto simp: dec_fix_def Let_def q_def u_def c_def split: if_splits)
  have "\<bar>y - x\<bar> = \<bar>of_int c * u - \<bar>x\<bar>\<bar>"
  proof (cases "0 < x")
    case True
    then show ?thesis
      by (simp add: y)
  next
    case False
    with assms(2) have neg: "x < 0"
      by simp
    then have "y - x = - (of_int c * u - \<bar>x\<bar>)"
      by (simp add: y)
    then show ?thesis
      by (simp only: abs_minus)
  qed
  also have "\<dots> = u * \<bar>of_int c - \<bar>x\<bar> / u\<bar>"
  proof -
    have "of_int c * u - \<bar>x\<bar> = u * (of_int c - \<bar>x\<bar> / u)"
      using upos by (simp add: field_simps)
    then show ?thesis
      using upos by (simp add: abs_mult)
  qed
  also have "\<dots> \<le> u * (1 / 2)"
    using upos round_half_even_error[of "\<bar>x\<bar> / u"] by (simp add: c_def mult_left_mono)
  finally show ?thesis
    by (simp add: u_def q_def)
qed

text \<open>A result of \<open>10 ^ (Emax + 1)\<close> or more raises \<open>Overflow\<close>.\<close>

lemma dec_fix_overflow:
  assumes "10 powi (emax + 1) \<le> \<bar>x\<bar>"
  shows "dec_fix x = Inl DecimalOverflow"
proof -
  have x0: "x \<noteq> 0"
    using assms by (smt (verit) abs_zero zero_less_power_int less_le_not_le zero_less_numeral)
  define q where "q = max (dec_adjusted x - 27) etiny"
  define u :: rat where "u = 10 powi q"
  define c where "c = round_half_even (\<bar>x\<bar> / u)"
  define y where "y = sgn x * of_int c * u"
  have upos: "0 < u"
    by (simp add: u_def zero_less_power_int)
  have adj: "emax + 1 \<le> dec_adjusted x"
    using x0 assms by (rule dec_adjusted_ge)
  then have q: "q = dec_adjusted x - 27"
    by (simp add: q_def etiny_def emin_def emax_def)
  have "(10 :: rat) powi 27 * u = 10 powi (dec_adjusted x)"
    by (simp add: u_def q power_int_diff)
  also have "\<dots> \<le> \<bar>x\<bar>"
    by (rule dec_adjusted_bounds(1)[OF x0])
  finally have "of_int (10 ^ 27) \<le> \<bar>x\<bar> / u"
    using upos by (simp add: pos_le_divide_eq)
  then have "10 ^ 27 \<le> c"
    unfolding c_def by (rule round_half_even_ge)
  then have "(of_int (10 ^ 27) :: rat) \<le> of_int c"
    by (simp only: of_int_le_iff)
  then have "10 powi 27 * u \<le> of_int c * u"
    using upos by (simp add: mult_right_mono)
  then have ylo: "10 powi (dec_adjusted x) \<le> of_int c * u"
    by (simp add: u_def q power_int_diff)
  have cpos: "0 < c"
    using \<open>10 ^ 27 \<le> c\<close> by simp
  have yabs: "\<bar>y\<bar> = of_int c * u"
    using x0 cpos upos by (simp add: y_def abs_mult sgn_if)
  have y0: "y \<noteq> 0"
    using yabs cpos upos by auto
  have "(10 :: rat) powi (emax + 1) \<le> 10 powi (dec_adjusted x)"
    using adj by (simp add: power_int_increasing)
  then have "10 powi (emax + 1) \<le> \<bar>y\<bar>"
    using ylo yabs by simp
  then have "emax + 1 \<le> dec_adjusted y"
    using y0 dec_adjusted_ge by blast
  then have "emax < dec_adjusted y"
    by simp
  moreover have "dec_fix x = (if y \<noteq> 0 \<and> emax < dec_adjusted y then Inl DecimalOverflow else Inr y)"
    using x0 by (simp add: dec_fix_def Let_def y_def c_def u_def q_def)
  ultimately show ?thesis
    using y0 by simp
qed

text \<open>Linear facts, stated on variables.\<close>

lemma half_bound: "A \<le> B / 2 \<Longrightarrow> B \<le> C \<Longrightarrow> A \<le> C / (2 :: rat)"
  by linarith

lemma above_bound: "\<bar>y - q\<bar> \<le> (s + t) / 2 \<Longrightarrow> 0 \<le> s \<Longrightarrow> 0 < t \<Longrightarrow> y \<le> q + s + (t :: rat)"
  unfolding add_divide_distrib by linarith

lemma error_sum:
  "\<bar>y - q'\<bar> \<le> (s' + t) / 2 \<Longrightarrow> \<bar>q' - q\<bar> \<le> s / 2 \<Longrightarrow> s' \<le> 2 * s \<Longrightarrow> 0 \<le> s \<Longrightarrow> 0 < t
     \<Longrightarrow> \<bar>y - q\<bar> \<le> 2 * s + (t :: rat)"
  unfolding add_divide_distrib by linarith

lemma within_lo: "\<bar>y - q\<bar> \<le> d \<Longrightarrow> f + d \<le> q \<Longrightarrow> f \<le> (y :: rat)"
  by linarith

lemma within_hi: "\<bar>y - q\<bar> \<le> d \<Longrightarrow> q + d < g \<Longrightarrow> y < (g :: rat)"
  by linarith

lemma within_twice: "\<bar>q' - q\<bar> \<le> s / 2 \<Longrightarrow> 0 \<le> s \<Longrightarrow> s \<le> q \<Longrightarrow> q' \<le> 2 * (q :: rat)"
  by linarith

lemma dec_fix_error_general:
  assumes "dec_fix x = Inr y"
  shows "\<bar>y - x\<bar> \<le> (\<bar>x\<bar> / 10 ^ 27 + 10 powi etiny) / 2"
proof (cases "x = 0")
  case True
  then have "y = 0"
    using assms by (simp add: dec_fix_def)
  moreover have "(0 :: rat) \<le> 10 powi etiny"
    by (simp add: zero_less_power_int less_imp_le)
  ultimately show ?thesis
    using True by simp
next
  case False
  from dec_fix_error[OF assms False] quantum_general[OF False] show ?thesis
    by (rule half_bound)
qed

lemma dec_fix_error_normal:
  assumes "dec_fix x = Inr y" and "10 powi emin \<le> \<bar>x\<bar>"
  shows "\<bar>y - x\<bar> \<le> \<bar>x\<bar> / 10 ^ 27 / 2"
proof -
  have "(0 :: rat) < 10 powi emin"
    by (simp add: zero_less_power_int)
  from this assms(2) have "0 < \<bar>x\<bar>"
    by (rule less_le_trans)
  then have x0: "x \<noteq> 0"
    by simp
  from dec_fix_error[OF assms(1) x0] quantum_normal[OF x0 assms(2)] show ?thesis
    by (rule half_bound)
qed

lemma etiny_pos: "(0 :: rat) < 10 powi etiny"
  by (simp add: zero_less_power_int)

lemma etiny_small: "(10 :: rat) powi etiny \<le> 1 / 10"
proof -
  have "(10 :: rat) powi etiny \<le> 10 powi (- 1)"
    by (rule power_int_increasing) (simp_all add: etiny_def emin_def)
  then show ?thesis
    by simp
qed

lemma emin_small: "(10 :: rat) powi emin \<le> 1"
proof -
  have "(10 :: rat) powi emin \<le> 10 powi 0"
    by (rule power_int_increasing) (simp_all add: emin_def)
  then show ?thesis
    by simp
qed

subsection \<open>Rounding at concrete numbers\<close>

text \<open>
  A quotient that does not end is cut at 28 digits; a product of 29 digits that ends
  in 5 goes to the even neighbour.
\<close>

lemma rounding_examples:
  "dec_div 1000 3 = Inr (3333333333333333333333333333 / 10000000000000000000000000)"
  "dec_div 2000 3 = Inr (6666666666666666666666666667 / 10000000000000000000000000)"
  "dec_mul 10000000000000000000000000005 1 = Inr 10000000000000000000000000000"
  "dec_mul 10000000000000000000000000015 1 = Inr 10000000000000000000000000020"
  "dec_mul 10000000000000000000000000025 1 = Inr 10000000000000000000000000020"
  by code_simp+

subsection \<open>A fill whose total overflows\<close>

text \<open>
  When the product of fill price and quantity reaches \<open>10 ^ (Emax + 1)\<close>, the
  multiplication raises and the order is not reported as filled.
\<close>

lemma overflowing_fill_not_reported:
  assumes "filled_avg_price ord = Some (DFin a)" and "filled_qty ord = Some (DFin b)"
    and "10 powi (emax + 1) \<le> \<bar>a * b\<bar>"
  shows "handle_filled_order ord = [ErrorHandlingFilled (order_id ord)]"
  using assms dec_fix_overflow[of "a * b"]
  by (simp add: handle_filled_order_def dec_product_def dec_mul_def)

text \<open>
  So it is with the fill price \<open>1E+999999\<close> and the quantity 10: the cycle logs the
  error and reports no fill.
\<close>

lemma overflowing_product: "dec_product (DFin (10 powi emax)) (DFin 10) = Inl DecimalOverflow"
proof -
  have "(10 :: rat) powi (emax + 1) \<le> \<bar>10 powi emax * 10\<bar>"
    by (simp add: power_int_add)
  then have "dec_fix (10 powi emax * 10) = Inl DecimalOverflow"
    by (rule dec_fix_overflow)
  then show ?thesis
    by (simp add: dec_product_def dec_mul_def)
qed

lemma overflowing_fill_cycle:
  "snd (check_orders overflowing_client tracking_X) =
     [ErrorHandlingFilled ''X'', ActiveOrdersUpdated 0]
   \<and> filled_events ''X'' (snd (check_orders overflowing_client tracking_X)) = 0"
  using overflowing_product
  by (simp add: overflowing_client_def tracking_X_def sample_order_def check_orders_def
      orders_by_id_def check_previous_def handle_order_update_def handle_filled_order_def
      filled_events_def)

text \<open>Products with a special value: a signalling NaN and infinity times zero raise.\<close>

lemma dec_product_special_values:
  "dec_product DSNaN (DFin 1) = Inl InvalidOperation"
  "dec_product DNaN (DFin 10) = Inr DNaN"
  "dec_product DInf (DFin 0) = Inl InvalidOperation"
  "dec_product DInf (DFin 10) = Inr DInf"
  "dec_product DInf DInf = Inr DInf"
  by (simp_all add: dec_product_def)

subsection \<open>The quantity in the output\<close>

text \<open>The quantity beside a signal in the output is the share quantity of that signal.\<close>

lemma process_entry_quantity:
  assumes "process_entry lib av target min_c min_r entry = Inr (Some (sy, sg, n))"
  shows "share_quantity av (decimal_of_float lib (position_size sg)) (entry_price sg) = Inr n"
  using assms
  by (auto simp: process_entry_def and_then_def split: sum.splits prod.splits if_splits)

lemma trunc_zero_nonneg: "0 \<le> y \<Longrightarrow> trunc_zero y = \<lfloor>y\<rfloor>"
  by (simp add: trunc_zero_def)

text \<open>With a product that needs no rounding.\<close>

lemma share_quantity_exact_product:
  assumes "0 \<le> a" and "0 \<le> p" and "0 < e"
    and "dec_mul a p = Inr (a * p)" and "a * p / e < 10 ^ 28"
  shows "\<exists>n. share_quantity a p e = Inr n \<and> 0 \<le> n
           \<and> (n = \<lfloor>a * p / e\<rfloor> \<or> n = \<lfloor>a * p / e\<rfloor> + 1)
           \<and> (a * p / e + a * p / e / 10 ^ 27 + 10 powi etiny < of_int \<lfloor>a * p / e\<rfloor> + 1
                \<longrightarrow> n = \<lfloor>a * p / e\<rfloor>)
           \<and> (dec_div (a * p) e = Inr (a * p / e) \<longrightarrow> n = \<lfloor>a * p / e\<rfloor>)"
proof -
  define q where "q = a * p / e"
  have qnn: "0 \<le> q"
    using assms by (simp add: q_def)
  have "q < 10 ^ 28"
    using assms(5) by (simp add: q_def)
  from dec_fix_bracket[OF qnn this] obtain y where y: "dec_fix q = Inr y"
    and ylo: "of_int \<lfloor>q\<rfloor> \<le> y" and yhi: "y \<le> of_int \<lfloor>q\<rfloor> + 1"
    by blast
  have dv: "dec_div (a * p) e = Inr y"
    using y assms(3) by (simp add: dec_div_def q_def)
  have ynn: "0 \<le> y"
    using qnn ylo by (meson of_int_0_le_iff order_trans zero_le_floor)
  have sq: "share_quantity a p e = Inr \<lfloor>y\<rfloor>"
    using assms(4) dv ynn by (simp add: share_quantity_def and_then_def trunc_zero_nonneg)
  have f1: "\<lfloor>q\<rfloor> \<le> \<lfloor>y\<rfloor>"
    using ylo by (simp add: le_floor_iff)
  have "y \<le> of_int (\<lfloor>q\<rfloor> + 1)"
    using yhi by simp
  then have f2: "\<lfloor>y\<rfloor> \<le> \<lfloor>q\<rfloor> + 1"
    by (metis floor_mono floor_of_int)
  have f3: "dec_div (a * p) e = Inr (a * p / e) \<longrightarrow> \<lfloor>y\<rfloor> = \<lfloor>q\<rfloor>"
    using dv by (simp add: q_def)
  have f4: "q + q / 10 ^ 27 + 10 powi etiny < of_int \<lfloor>q\<rfloor> + 1 \<longrightarrow> \<lfloor>y\<rfloor> = \<lfloor>q\<rfloor>"
  proof
    assume margin: "q + q / 10 ^ 27 + 10 powi etiny < of_int \<lfloor>q\<rfloor> + 1"
    have "\<bar>y - q\<bar> \<le> (\<bar>q\<bar> / 10 ^ 27 + 10 powi etiny) / 2"
      using y by (rule dec_fix_error_general)
    moreover have "\<bar>q\<bar> = q"
      using qnn by simp
    moreover have "0 \<le> q / 10 ^ 27"
      using qnn by simp
    ultimately have "y \<le> q + q / 10 ^ 27 + 10 powi etiny"
      using etiny_pos by (simp only: above_bound)
    from this margin have "y < of_int \<lfloor>q\<rfloor> + 1"
      by (rule le_less_trans)
    with ylo show "\<lfloor>y\<rfloor> = \<lfloor>q\<rfloor>"
      by (simp add: floor_unique)
  qed
  have "0 \<le> \<lfloor>y\<rfloor>"
    using ynn by simp
  with sq f1 f2 f3 f4 show ?thesis
    unfolding q_def by (intro exI[of _ "\<lfloor>y\<rfloor>"]) auto
qed

text \<open>With a product that is rounded.\<close>

lemma share_quantity_rounded_product:
  assumes "0 < e" and "10 powi emin \<le> a * p" and "a * p < 10 ^ 28" and "a * p / e < 10 ^ 27"
    and "of_int \<lfloor>a * p / e\<rfloor> + (2 * (a * p / e / 10 ^ 27) + 10 powi etiny) \<le> a * p / e"
    and "a * p / e + (2 * (a * p / e / 10 ^ 27) + 10 powi etiny) < of_int \<lfloor>a * p / e\<rfloor> + 1"
  shows "share_quantity a p e = Inr \<lfloor>a * p / e\<rfloor>"
proof -
  define x where "x = a * p"
  define q where "q = x / e"
  have empos: "(0 :: rat) < 10 powi emin"
    by (simp add: zero_less_power_int)
  have xpos: "0 < x"
    unfolding x_def using empos assms(2) by (rule less_le_trans)
  have qpos: "0 < q"
    using xpos assms(1) by (simp add: q_def)
  obtain m where m: "dec_fix x = Inr m"
    using dec_fix_bracket[of x] xpos assms(3) by (auto simp: x_def)
  have mnn: "0 \<le> m"
    using xpos m dec_fix_nonneg[of x m] by simp
  have "10 powi emin \<le> \<bar>x\<bar>"
    using assms(2) xpos by (simp add: x_def)
  with m have "\<bar>m - x\<bar> \<le> \<bar>x\<bar> / 10 ^ 27 / 2"
    by (rule dec_fix_error_normal)
  then have em: "\<bar>m - x\<bar> \<le> x / 10 ^ 27 / 2"
    using xpos by simp
  define q' where "q' = m / e"
  have "q' - q = (m - x) / e"
    by (simp add: q'_def q_def diff_divide_distrib)
  then have "\<bar>q' - q\<bar> = \<bar>m - x\<bar> / e"
    using assms(1) by (simp add: abs_divide)
  also have "\<dots> \<le> x / 10 ^ 27 / 2 / e"
  proof -
    have "0 \<le> e"
      using assms(1) by simp
    with em show ?thesis
      by (rule divide_right_mono)
  qed
  also have "\<dots> = q / 10 ^ 27 / 2"
    by (simp add: q_def)
  finally have eq': "\<bar>q' - q\<bar> \<le> q / 10 ^ 27 / 2" .
  have q'nn: "0 \<le> q'"
    using mnn assms(1) by (simp add: q'_def)
  define s where "s = q / 10 ^ 27"
  have snn: "0 \<le> s"
    using qpos by (simp add: s_def)
  have eqs: "\<bar>q' - q\<bar> \<le> s / 2"
    using eq' by (simp add: s_def)
  have "s \<le> q"
    using qpos by (simp add: s_def field_simps)
  with eqs snn have q'le: "q' \<le> 2 * q"
    by (rule within_twice)
  have "q < 10 ^ 27"
    using assms(4) by (simp add: q_def x_def)
  then have "q' < 10 ^ 28"
    using q'le by simp
  from dec_fix_bracket[OF q'nn this] obtain y where y: "dec_fix q' = Inr y"
    and ylo: "of_int \<lfloor>q'\<rfloor> \<le> y"
    by blast
  have ynn: "0 \<le> y"
    using q'nn ylo by (meson of_int_0_le_iff order_trans zero_le_floor)
  have "\<bar>y - q'\<bar> \<le> (\<bar>q'\<bar> / 10 ^ 27 + 10 powi etiny) / 2"
    using y by (rule dec_fix_error_general)
  then have ey: "\<bar>y - q'\<bar> \<le> (q' / 10 ^ 27 + 10 powi etiny) / 2"
    using q'nn by simp
  have "q' / 10 ^ 27 \<le> 2 * s"
    using q'le by (simp add: s_def field_simps)
  with ey eqs have err: "\<bar>y - q\<bar> \<le> 2 * s + 10 powi etiny"
    using snn etiny_pos by (rule error_sum)
  have m5: "of_int \<lfloor>q\<rfloor> + (2 * s + 10 powi etiny) \<le> q"
    using assms(5) by (simp only: q_def x_def s_def)
  have m6: "q + (2 * s + 10 powi etiny) < of_int \<lfloor>q\<rfloor> + 1"
    using assms(6) by (simp only: q_def x_def s_def)
  have lo: "of_int \<lfloor>q\<rfloor> \<le> y"
    using err m5 by (rule within_lo)
  have hi: "y < of_int \<lfloor>q\<rfloor> + 1"
    using err m6 by (rule within_hi)
  have fl: "\<lfloor>y\<rfloor> = \<lfloor>q\<rfloor>"
    using lo hi by (simp add: floor_unique)
  have "dec_mul a p = Inr m"
    using m by (simp add: dec_mul_def x_def)
  moreover have "dec_div m e = Inr y"
    using y assms(1) by (simp add: dec_div_def q'_def)
  ultimately have "share_quantity a p e = Inr \<lfloor>y\<rfloor>"
    using ynn by (simp add: share_quantity_def and_then_def trunc_zero_nonneg)
  then show ?thesis
    by (simp add: fl q_def x_def)
qed

subsection \<open>Claim\<close>

text \<open>
  C2, as stated: the quantity is the floor of the exact quotient
  \<open>account_value * position_size / entry_price\<close>. It fails: with an account value of
  29999999999999999999999999999, position size 1 and entry price
  10000000000000000000000000000 the exact quotient is 2.9999999999999999999999999999,
  with floor 2, but the product is rounded to 28 digits and the quantity is 3.
\<close>

theorem quantity_above_floor:
  "share_quantity 29999999999999999999999999999 1 10000000000000000000000000000 = Inr 3
   \<and> \<lfloor>29999999999999999999999999999 * 1 / 10000000000000000000000000000 :: rat\<rfloor> = 2"
  by code_simp

text \<open>
  C2, amended. Take an account value that is not negative, a position size between 0
  and 1 (as the decimal \<open>Decimal(str(position_size))\<close>) and a positive entry price; let
  \<open>q\<close> be the exact quotient \<open>account_value * position_size / entry_price\<close>. The
  computation rounds the product and then the quotient to 28 significant digits, and a
  quantity that is computed is an integer that is not negative.

  When the product needs no rounding and \<open>q < 10 ^ 28\<close>, a quantity is computed; it is
  the floor of \<open>q\<close>, except that it may be that floor plus one when \<open>q\<close> is within
  \<open>q / 10 ^ 27 + 10 ^ Etiny\<close> below the next integer; it is the floor also whenever the
  quotient needs no rounding.

  When the product is rounded, is at least \<open>10 ^ Emin\<close> and below \<open>10 ^ 28\<close>, and
  \<open>q < 10 ^ 27\<close>, the quantity is the floor of \<open>q\<close> whenever \<open>q\<close> is at least
  \<open>2 * q / 10 ^ 27 + 10 ^ Etiny\<close> away from the integers on both sides.
\<close>

theorem share_quantity_amended:
  assumes "0 \<le> a" and "0 \<le> p" and "p \<le> 1" and "0 < e"
  shows "(\<forall>n. share_quantity a p e = Inr n \<longrightarrow> 0 \<le> n)
       \<and> (dec_mul a p = Inr (a * p) \<and> a * p / e < 10 ^ 28 \<longrightarrow>
            (\<exists>n. share_quantity a p e = Inr n \<and> 0 \<le> n
               \<and> (n = \<lfloor>a * p / e\<rfloor> \<or> n = \<lfloor>a * p / e\<rfloor> + 1)
               \<and> (a * p / e + a * p / e / 10 ^ 27 + 10 powi etiny < of_int \<lfloor>a * p / e\<rfloor> + 1
                    \<longrightarrow> n = \<lfloor>a * p / e\<rfloor>)
               \<and> (dec_div (a * p) e = Inr (a * p / e) \<longrightarrow> n = \<lfloor>a * p / e\<rfloor>)))
       \<and> (10 powi emin \<le> a * p \<and> a * p < 10 ^ 28 \<and> a * p / e < 10 ^ 27
            \<and> of_int \<lfloor>a * p / e\<rfloor> + (2 * (a * p / e / 10 ^ 27) + 10 powi etiny) \<le> a * p / e
            \<and> a * p / e + (2 * (a * p / e / 10 ^ 27) + 10 powi etiny) < of_int \<lfloor>a * p / e\<rfloor> + 1
          \<longrightarrow> share_quantity a p e = Inr \<lfloor>a * p / e\<rfloor>)"
proof (intro conjI allI impI)
  fix n
  assume "share_quantity a p e = Inr n"
  then obtain m d where m: "dec_mul a p = Inr m" and d: "dec_div m e = Inr d"
    and n: "n = trunc_zero d"
    by (auto simp: share_quantity_def and_then_def split: sum.splits)
  have "0 \<le> a * p"
    using assms(1,2) by simp
  then have "0 \<le> m"
    using m by (auto simp: dec_mul_def dest: dec_fix_nonneg)
  then have "0 \<le> m / e"
    using assms(4) by simp
  moreover have "dec_fix (m / e) = Inr d"
    using d assms(4) by (simp add: dec_div_def)
  ultimately have "0 \<le> d"
    by (rule dec_fix_nonneg)
  then show "0 \<le> n"
    by (simp add: n trunc_zero_nonneg)
next
  assume "dec_mul a p = Inr (a * p) \<and> a * p / e < 10 ^ 28"
  then show "\<exists>n. share_quantity a p e = Inr n \<and> 0 \<le> n
      \<and> (n = \<lfloor>a * p / e\<rfloor> \<or> n = \<lfloor>a * p / e\<rfloor> + 1)
      \<and> (a * p / e + a * p / e / 10 ^ 27 + 10 powi etiny < of_int \<lfloor>a * p / e\<rfloor> + 1
           \<longrightarrow> n = \<lfloor>a * p / e\<rfloor>)
      \<and> (dec_div (a * p) e = Inr (a * p / e) \<longrightarrow> n = \<lfloor>a * p / e\<rfloor>)"
    using share_quantity_exact_product[OF assms(1) assms(2) assms(4)] by blast
next
  assume "10 powi emin \<le> a * p \<and> a * p < 10 ^ 28 \<and> a * p / e < 10 ^ 27
      \<and> of_int \<lfloor>a * p / e\<rfloor> + (2 * (a * p / e / 10 ^ 27) + 10 powi etiny) \<le> a * p / e
      \<and> a * p / e + (2 * (a * p / e / 10 ^ 27) + 10 powi etiny) < of_int \<lfloor>a * p / e\<rfloor> + 1"
  then show "share_quantity a p e = Inr \<lfloor>a * p / e\<rfloor>"
    using share_quantity_rounded_product[OF assms(4)] by blast
qed

theorem share_quantity_amended_witness:
  "share_quantity 10000 (1 / 10) 3 = Inr 333
   \<and> share_quantity 12345678901234567890123456789 (1 / 10) 1000 = Inr 1234567890123456789012345"
proof -
  have p0: "(0 :: rat) \<le> 1 / 10" and p1: "(1 / 10 :: rat) \<le> 1"
    by simp_all
  have first: "share_quantity 10000 (1 / 10) 3 = Inr 333"
  proof -
    have a0: "(0 :: rat) \<le> 10000" and e0: "(0 :: rat) < 3"
      by simp_all
    have h1: "dec_mul 10000 (1 / 10) = Inr (10000 * (1 / 10))"
      by code_simp
    have h2: "10000 * (1 / 10) / 3 < (10 :: rat) ^ 28"
      by simp
    have fl: "\<lfloor>10000 * (1 / 10) / 3 :: rat\<rfloor> = 333"
      by (rule floor_unique) simp_all
    have mg: "10000 * (1 / 10) / 3 + 10000 * (1 / 10) / 3 / 10 ^ 27 + 10 powi etiny
        < rat_of_int \<lfloor>10000 * (1 / 10) / 3 :: rat\<rfloor> + 1"
      unfolding fl using etiny_small by simp
    from share_quantity_amended[OF a0 p0 p1 e0] h1 h2 obtain n where
      "share_quantity 10000 (1 / 10) 3 = Inr n"
      "10000 * (1 / 10) / 3 + 10000 * (1 / 10) / 3 / 10 ^ 27 + 10 powi etiny
        < rat_of_int \<lfloor>10000 * (1 / 10) / 3 :: rat\<rfloor> + 1 \<longrightarrow> n = \<lfloor>10000 * (1 / 10) / 3 :: rat\<rfloor>"
      by blast
    with mg fl show ?thesis
      by simp
  qed
  have second: "share_quantity 12345678901234567890123456789 (1 / 10) 1000 =
      Inr 1234567890123456789012345"
  proof -
    have a0: "(0 :: rat) \<le> 12345678901234567890123456789" and e0: "(0 :: rat) < 1000"
      by simp_all
    have "(1 :: rat) \<le> 12345678901234567890123456789 * (1 / 10)"
      by simp
    with emin_small have h1: "10 powi emin \<le> (12345678901234567890123456789 :: rat) * (1 / 10)"
      by (rule order_trans)
    have h2: "12345678901234567890123456789 * (1 / 10) < (10 :: rat) ^ 28"
      by simp
    have h3: "12345678901234567890123456789 * (1 / 10) / 1000 < (10 :: rat) ^ 27"
      by simp
    have fl: "\<lfloor>12345678901234567890123456789 * (1 / 10) / 1000 :: rat\<rfloor> =
        1234567890123456789012345"
      by (rule floor_unique) simp_all
    have m5: "rat_of_int \<lfloor>12345678901234567890123456789 * (1 / 10) / 1000 :: rat\<rfloor>
        + (2 * (12345678901234567890123456789 * (1 / 10) / 1000 / 10 ^ 27) + 10 powi etiny)
        \<le> 12345678901234567890123456789 * (1 / 10) / 1000"
      unfolding fl using etiny_small by simp
    have m6: "12345678901234567890123456789 * (1 / 10) / 1000
        + (2 * (12345678901234567890123456789 * (1 / 10) / 1000 / 10 ^ 27) + 10 powi etiny)
        < rat_of_int \<lfloor>12345678901234567890123456789 * (1 / 10) / 1000 :: rat\<rfloor> + 1"
      unfolding fl using etiny_small by simp
    from share_quantity_amended[OF a0 p0 p1 e0] h1 h2 h3 m5 m6
    have "share_quantity 12345678901234567890123456789 (1 / 10) 1000 =
        Inr \<lfloor>12345678901234567890123456789 * (1 / 10) / 1000 :: rat\<rfloor>"
      by blast
    then show ?thesis
      unfolding fl .
  qed
  from first second show ?thesis
    by (rule conjI)
qed

end
